theory Spec2Isabelle
  imports Main "HOL-Library.Char_ord"
begin

text \<open>
  A model of the payment-instruction service: the parser of instruction texts
  (\<open>parseInstruction\<close>), the field validators and the transaction processor
  (\<open>parsePaymentInstruction\<close>), followed by the properties of the specification that
  hold of it and the places where the code does something else.
\<close>

section \<open>JavaScript strings and the string primitives the service uses\<close>

text \<open>
  A JavaScript string is modelled as a \<^typ>\<open>string\<close>, one \<^typ>\<open>char\<close> per code unit,
  read as ASCII. On ASCII text the functions below compute what the built-ins of the
  source compute; code units above 127 are treated as neither white space nor letters.
  A search that finds nothing returns \<open>None\<close> where JavaScript returns \<open>-1\<close>.
\<close>

definition isWhiteSpace :: "char \<Rightarrow> bool" where
  "isWhiteSpace c \<longleftrightarrow> c \<in> set [CHR 0x09, CHR 0x0A, CHR 0x0B, CHR 0x0C, CHR 0x0D, CHR 0x20]"

definition trim :: "string \<Rightarrow> string" where
  "trim s = rev (dropWhile isWhiteSpace (rev (dropWhile isWhiteSpace s)))"

text \<open>The case mappings of the 26 ASCII letters; every other character maps to itself.\<close>

definition upperLetters :: string where
  "upperLetters = ''ABCDEFGHIJKLMNOPQRSTUVWXYZ''"

definition lowerLetters :: string where
  "lowerLetters = ''abcdefghijklmnopqrstuvwxyz''"

definition lowerChar :: "char \<Rightarrow> char" where
  "lowerChar c = (case map_of (zip upperLetters lowerLetters) c of Some d \<Rightarrow> d | None \<Rightarrow> c)"

definition upperChar :: "char \<Rightarrow> char" where
  "upperChar c = (case map_of (zip lowerLetters upperLetters) c of Some d \<Rightarrow> d | None \<Rightarrow> c)"

definition toLowerCase :: "string \<Rightarrow> string" where
  "toLowerCase s = map lowerChar s"

definition toUpperCase :: "string \<Rightarrow> string" where
  "toUpperCase s = map upperChar s"

text \<open>\<open>s.indexOf(kw, start)\<close>: the least position from \<open>start\<close> on where \<open>kw\<close> begins.\<close>

fun indexOfAux :: "string \<Rightarrow> string \<Rightarrow> nat \<Rightarrow> nat option" where
  "indexOfAux kw [] k = (if kw = [] then Some k else None)"
| "indexOfAux kw (c # cs) k =
     (if take (length kw) (c # cs) = kw then Some k else indexOfAux kw cs (Suc k))"

definition indexOf :: "string \<Rightarrow> string \<Rightarrow> nat \<Rightarrow> nat option" where
  "indexOf s kw start = (let p = min start (length s) in indexOfAux kw (drop p s) p)"

text \<open>\<open>s.substring(a, b)\<close> clamps both positions to the string and swaps them if needed.\<close>

definition substring :: "string \<Rightarrow> nat \<Rightarrow> nat \<Rightarrow> string" where
  "substring s a b =
     (let a' = min a (length s); b' = min b (length s)
      in take (max a' b' - min a' b') (drop (min a' b') s))"

definition substringFrom :: "string \<Rightarrow> nat \<Rightarrow> string" where
  "substringFrom s a = drop a s"

text \<open>\<open>s.split(sep)\<close> for a separator of one character.\<close>

fun splitAcc :: "char \<Rightarrow> string \<Rightarrow> string \<Rightarrow> string list" where
  "splitAcc sep cur [] = [rev cur]"
| "splitAcc sep cur (c # cs) =
     (if c = sep then rev cur # splitAcc sep [] cs else splitAcc sep (c # cur) cs)"

definition split :: "char \<Rightarrow> string \<Rightarrow> string list" where
  "split sep s = splitAcc sep [] s"

definition isDigit :: "char \<Rightarrow> bool" where
  "isDigit c \<longleftrightarrow> \<not> (c < CHR ''0'' \<or> c > CHR ''9'')"

definition digitVal :: "char \<Rightarrow> int" where
  "digitVal c = int (of_char c) - 48"

definition digitsVal :: "string \<Rightarrow> int" where
  "digitsVal s = foldl (\<lambda>acc c. 10 * acc + digitVal c) 0 s"

section \<open>JavaScript numbers\<close>

text \<open>
  A JavaScript number is an IEEE 754 double. The numbers of the service are the amount
  that \<open>parseInt\<close> reads, the balances of the accounts, which the data model takes to be
  integers, and the sums and differences of the two. All of them are integers, infinite
  or \<open>NaN\<close>: \<open>Num i\<close> is the double whose value is the integer \<open>i\<close>. Negative zero, which
  \<open>parseInt\<close> returns for \<open>-0\<close>, is not told apart from zero.

  \<open>numberValue i\<close> is the number value for the integer \<open>i\<close>: the double nearest to it, the
  one with the even significand when two are equally near, and an infinity from
  \<open>2^1024 - 2^970\<close> on. A double has 53 significant bits; \<open>bitLength\<close> counts the bits of
  a positive integer.
\<close>

datatype number = NaN | Infinity | NegInfinity | Num int

function bitLength :: "int \<Rightarrow> nat" where
  "bitLength n = (if n \<le> 0 then 0 else Suc (bitLength (n div 2)))"
  by pat_completeness auto

termination
  by (relation "measure nat") auto

declare bitLength.simps [simp del]

definition roundMagnitude :: "int \<Rightarrow> int" where
  "roundMagnitude n =
     (if bitLength n \<le> 53 then n
      else
        let e = bitLength n - 53; q = n div 2 ^ e; r = n mod 2 ^ e; half = 2 ^ (e - 1)
        in (if r < half \<or> (r = half \<and> even q) then q else q + 1) * 2 ^ e)"

definition numberValue :: "int \<Rightarrow> number" where
  "numberValue i =
     (let m = roundMagnitude \<bar>i\<bar>
      in if 2 ^ 1024 \<le> m then (if i < 0 then NegInfinity else Infinity)
         else Num (if i < 0 then - m else m))"

text \<open>The operators \<open><\<close>, \<open>+\<close> and \<open>-\<close> on these numbers.\<close>

fun numberLess :: "number \<Rightarrow> number \<Rightarrow> bool" where
  "numberLess (Num a) (Num b) = (a < b)"
| "numberLess (Num a) Infinity = True"
| "numberLess NegInfinity (Num b) = True"
| "numberLess NegInfinity Infinity = True"
| "numberLess _ _ = False"

fun numberAdd :: "number \<Rightarrow> number \<Rightarrow> number" where
  "numberAdd (Num a) (Num b) = numberValue (a + b)"
| "numberAdd NaN _ = NaN"
| "numberAdd _ NaN = NaN"
| "numberAdd Infinity NegInfinity = NaN"
| "numberAdd NegInfinity Infinity = NaN"
| "numberAdd Infinity _ = Infinity"
| "numberAdd _ Infinity = Infinity"
| "numberAdd NegInfinity _ = NegInfinity"
| "numberAdd _ NegInfinity = NegInfinity"

fun numberNegate :: "number \<Rightarrow> number" where
  "numberNegate (Num a) = Num (- a)"
| "numberNegate Infinity = NegInfinity"
| "numberNegate NegInfinity = Infinity"
| "numberNegate NaN = NaN"

definition numberSub :: "number \<Rightarrow> number \<Rightarrow> number" where
  "numberSub x y = numberAdd x (numberNegate y)"

text \<open>
  \<open>parseInt(s, 10)\<close>: leading white space and one sign are skipped, then the longest run of
  decimal digits is read; with no digit there the result is \<open>NaN\<close>. The result is the
  number value for the integer read. (ECMAScript lets an implementation read the digits
  after the twentieth as zeros; the model rounds the integer as written, as V8 does.)
\<close>

definition parseInt :: "string \<Rightarrow> number" where
  "parseInt s =
     (let t = dropWhile isWhiteSpace s;
          (sgn, u) = (case t of
                        c # cs \<Rightarrow> if c = CHR ''-'' then (- 1, cs)
                                  else if c = CHR ''+'' then (1, cs) else (1, t)
                      | [] \<Rightarrow> (1, t));
          ds = takeWhile isDigit u
      in if ds = [] then NaN else numberValue (sgn * digitsVal ds))"

text \<open>
  A template literal prints a number with \<open>Number::toString\<close>: the fewest decimal digits
  that read back as the same double (of several such, the nearest), followed by zeros
  while the number has at most 21 digits, and in exponent notation beyond.
  \<open>digitsAt x e\<close> looks for such digits with \<open>e\<close> zeros after them, and \<open>shortestDigits\<close>
  takes the largest \<open>e\<close> that has some.
\<close>

function showDigits :: "int \<Rightarrow> string" where
  "showDigits n =
     (if n < 10 then [char_of (48 + n)] else showDigits (n div 10) @ [char_of (48 + n mod 10)])"
  by pat_completeness auto

termination
  by (relation "measure nat") auto

declare showDigits.simps [simp del]

definition roundTrip :: "int \<Rightarrow> int \<Rightarrow> nat \<Rightarrow> bool" where
  "roundTrip x s e \<longleftrightarrow> numberValue (s * 10 ^ e) = Num x"

definition digitsAt :: "int \<Rightarrow> nat \<Rightarrow> int option" where
  "digitsAt x e =
     (let lo = x div 10 ^ e; hi = lo + 1;
          below = x - lo * 10 ^ e; above = hi * 10 ^ e - x
      in if roundTrip x lo e \<and>
            (\<not> roundTrip x hi e \<or> below < above \<or> (below = above \<and> even lo))
         then Some lo
         else if roundTrip x hi e then Some hi else None)"

fun shortestDigits :: "int \<Rightarrow> nat \<Rightarrow> int \<times> nat" where
  "shortestDigits x 0 = (x, 0)"
| "shortestDigits x (Suc e) =
     (case digitsAt x (Suc e) of Some s \<Rightarrow> (s, Suc e) | None \<Rightarrow> shortestDigits x e)"

definition showMagnitude :: "int \<Rightarrow> string" where
  "showMagnitude x =
     (let (s0, e0) = shortestDigits x (length (showDigits x) - 1);
          (s, e) = (if s0 mod 10 = 0 \<and> 0 < s0 then (s0 div 10, e0 + 1) else (s0, e0));
          ds = showDigits s; k = length ds; n = k + e
      in if n \<le> 21 then ds @ replicate e CHR ''0''
         else if k = 1 then ds @ ''e+'' @ showDigits (int n - 1)
         else hd ds # ''.'' @ tl ds @ ''e+'' @ showDigits (int n - 1))"

fun showNumber :: "number \<Rightarrow> string" where
  "showNumber NaN = ''NaN''"
| "showNumber Infinity = ''Infinity''"
| "showNumber NegInfinity = ''-Infinity''"
| "showNumber (Num i) =
     (if i < 0 then CHR ''-'' # showMagnitude (- i) else showMagnitude i)"

section \<open>Dates\<close>

text \<open>
  A \<open>Date\<close> is its time value, the milliseconds since 1970-01-01T00:00:00Z, in the
  proleptic Gregorian calendar of ECMAScript. \<open>Date.UTC(year, month, day)\<close> is \<open>MakeDay\<close>
  scaled to milliseconds, and the \<open>getUTC...\<close> accessors read the calendar date of the day
  number back. Time values stay inside the range of a \<open>Date\<close> for the four-digit years
  the service handles, so \<open>TimeClip\<close> is left out.
\<close>

definition msPerDay :: int where
  "msPerDay = 86400000"

definition DayFromYear :: "int \<Rightarrow> int" where
  "DayFromYear y = 365 * (y - 1970) + (y - 1969) div 4 - (y - 1901) div 100 + (y - 1601) div 400"

definition InLeapYear :: "int \<Rightarrow> bool" where
  "InLeapYear y \<longleftrightarrow> (y mod 4 = 0 \<and> y mod 100 \<noteq> 0) \<or> y mod 400 = 0"

definition daysBeforeMonth :: "bool \<Rightarrow> int \<Rightarrow> int" where
  "daysBeforeMonth leap mn =
     [0, 31, 59, 90, 120, 151, 181, 212, 243, 273, 304, 334] ! nat mn
       + (if leap \<and> 2 \<le> mn then 1 else 0)"

definition MakeDay :: "int \<Rightarrow> int \<Rightarrow> int \<Rightarrow> int" where
  "MakeDay year month date =
     (let ym = year + month div 12; mn = month mod 12
      in DayFromYear ym + daysBeforeMonth (InLeapYear ym) mn + date - 1)"

definition Date_UTC :: "int \<Rightarrow> int \<Rightarrow> int \<Rightarrow> int" where
  "Date_UTC year month day =
     (let yr = (if 0 \<le> year \<and> year \<le> 99 then 1900 + year else year)
      in MakeDay yr month day * msPerDay)"

text \<open>The calendar date (year, month index from 0, day of month) of a day number.\<close>

definition civilFromDay :: "int \<Rightarrow> int \<times> int \<times> int" where
  "civilFromDay dn =
     (let z = dn + 719468;
          era = z div 146097;
          doe = z mod 146097;
          yoe = (doe - doe div 1460 + doe div 36524 - doe div 146096) div 365;
          doy = doe - (365 * yoe + yoe div 4 - yoe div 100);
          mp = (5 * doy + 2) div 153;
          d = doy - (153 * mp + 2) div 5 + 1;
          m = (if mp < 10 then mp + 3 else mp - 9);
          y = yoe + era * 400 + (if m \<le> 2 then 1 else 0)
      in (y, m - 1, d))"

definition getUTCFullYear :: "int \<Rightarrow> int" where
  "getUTCFullYear t = fst (civilFromDay (t div msPerDay))"

definition getUTCMonth :: "int \<Rightarrow> int" where
  "getUTCMonth t = fst (snd (civilFromDay (t div msPerDay)))"

definition getUTCDate :: "int \<Rightarrow> int" where
  "getUTCDate t = snd (snd (civilFromDay (t div msPerDay)))"

section \<open>Field validators\<close>

fun accountIdChars :: "string \<Rightarrow> bool" where
  "accountIdChars [] = True"
| "accountIdChars (c # cs) =
     (let isLetter = (c \<ge> CHR ''a'' \<and> c \<le> CHR ''z'') \<or> (c \<ge> CHR ''A'' \<and> c \<le> CHR ''Z'');
          isNumber = (c \<ge> CHR ''0'' \<and> c \<le> CHR ''9'');
          isAllowedSpecial = (c = CHR ''-'' \<or> c = CHR ''.'' \<or> c = CHR ''@'')
      in if \<not> isLetter \<and> \<not> isNumber \<and> \<not> isAllowedSpecial then False else accountIdChars cs)"

definition isValidAccountId :: "string \<Rightarrow> bool" where
  "isValidAccountId accountId = (if accountIdChars accountId then length accountId > 0 else False)"

text \<open>
  \<open>parseInt\<close> is applied to runs of at most four digits here, where it gives the integer
  written; the last branch is what the comparisons of the source give on any other number.
\<close>

definition isValidDate :: "string \<Rightarrow> bool" where
  "isValidDate dateStr =
     (if dateStr = [] \<or> length dateStr \<noteq> 10 then False
      else if dateStr ! 4 \<noteq> CHR ''-'' \<or> dateStr ! 7 \<noteq> CHR ''-'' then False
      else
        let year = substring dateStr 0 4;
            month = substring dateStr 5 7;
            day = substring dateStr 8 10
        in if \<not> list_all isDigit year then False
           else if \<not> list_all isDigit month then False
           else if \<not> list_all isDigit day then False
           else
             (case (parseInt year, parseInt month, parseInt day) of
                (Num yearNum, Num monthNum, Num dayNum) \<Rightarrow>
                  if monthNum < 1 \<or> monthNum > 12 then False
                  else if dayNum < 1 \<or> dayNum > 31 then False
                  else if yearNum < 1000 then False
                  else
                    let date = Date_UTC yearNum (monthNum - 1) dayNum
                    in getUTCFullYear date = yearNum \<and>
                       getUTCMonth date = monthNum - 1 \<and>
                       getUTCDate date = dayNum
              | _ \<Rightarrow> False))"

datatype date_position = past | today | future

text \<open>
  \<open>compareDateWithToday\<close> reads the system clock (\<open>new Date()\<close>). The reading is the
  argument \<open>now\<close> of the model, a time value. A part of the date that is missing, not a
  number or infinite makes the instruction date \<open>NaN\<close>, which compares false both ways
  and so counts as \<open>future\<close>; so does a date beyond the range of time values, which lies
  after every reading of the clock.
\<close>

definition nth_opt :: "'a list \<Rightarrow> nat \<Rightarrow> 'a option" where
  "nth_opt xs i = (if i < length xs then Some (xs ! i) else None)"

definition compareDateWithToday :: "int \<Rightarrow> string \<Rightarrow> date_position" where
  "compareDateWithToday now dateStr =
     (let todayUTC = Date_UTC (getUTCFullYear now) (getUTCMonth now) (getUTCDate now);
          parts = split CHR ''-'' dateStr;
          num = (\<lambda>i. case nth_opt parts i of None \<Rightarrow> NaN | Some s \<Rightarrow> parseInt s)
      in case (num 0, num 1, num 2) of
           (Num y, Num m, Num d) \<Rightarrow>
             let instructionDate = Date_UTC y (m - 1) d
             in if instructionDate < todayUTC then past
                else if instructionDate = todayUTC then today
                else future
         | _ \<Rightarrow> future)"

definition isPositiveInteger :: "string \<Rightarrow> bool" where
  "isPositiveInteger amountStr =
     (if amountStr = [] then False
      else if indexOf amountStr ''.'' 0 \<noteq> None \<or> indexOf amountStr ''-'' 0 \<noteq> None then False
      else if \<not> list_all isDigit amountStr then False
      else numberLess (Num 0) (parseInt amountStr))"

definition SUPPORTED_CURRENCIES :: "string list" where
  "SUPPORTED_CURRENCIES = [''NGN'', ''USD'', ''GBP'', ''GHS'']"

section \<open>The instruction parser\<close>

datatype instruction_type = DEBIT | CREDIT

record parsed_instruction =
  p_type :: instruction_type
  p_amount :: string
  p_currency :: string
  p_debitAccount :: string
  p_creditAccount :: string
  p_executeBy :: "string option"

definition findKeywordIndex :: "string \<Rightarrow> string \<Rightarrow> nat \<Rightarrow> nat option" where
  "findKeywordIndex instruction keyword startFrom =
     (let lowerInstruction = toLowerCase instruction;
          lowerKeyword = toLowerCase keyword
      in indexOf lowerInstruction lowerKeyword startFrom)"

text \<open>The end position \<open>-1\<close> of the source, meaning the end of the string, is \<open>None\<close>.\<close>

definition extractBetween :: "string \<Rightarrow> nat \<Rightarrow> nat option \<Rightarrow> string" where
  "extractBetween instruction startPos endPos =
     (case endPos of
        None \<Rightarrow> trim (substringFrom instruction startPos)
      | Some e \<Rightarrow> trim (substring instruction startPos e))"

definition amountCurrencyTokens :: "string \<Rightarrow> string list" where
  "amountCurrencyTokens amountCurrencyPart =
     filter (\<lambda>t. length t > 0) (split CHR '' '' amountCurrencyPart)"

text \<open>\<open>executeBy || null\<close>: the empty string becomes \<open>null\<close>.\<close>

definition orNull :: "string option \<Rightarrow> string option" where
  "orNull e = (case e of None \<Rightarrow> None | Some d \<Rightarrow> if d = [] then None else Some d)"

text \<open>
  The two branches of \<open>parseInstruction\<close>. Every \<open>return null\<close> of the source is a \<open>None\<close>.
  The \<open>try\<close> block calls string built-ins on strings only, none of which throws, so the
  \<open>catch\<close> branch has no counterpart.
\<close>

definition parseDebit :: "string \<Rightarrow> parsed_instruction option" where
  "parseDebit trimmedInstruction =
     (case findKeywordIndex trimmedInstruction ''FROM'' 5 of
        None \<Rightarrow> None
      | Some fromIndex \<Rightarrow>
     let amountCurrencyPart = extractBetween trimmedInstruction 5 (Some fromIndex);
         tokens = amountCurrencyTokens amountCurrencyPart
     in if length tokens < 2 then None else
     let amount = tokens ! 0;
         currency = toUpperCase (tokens ! 1)
     in
     (case findKeywordIndex trimmedInstruction ''ACCOUNT'' fromIndex of
        None \<Rightarrow> None
      | Some accountKeywordAfterFrom \<Rightarrow>
     (case findKeywordIndex trimmedInstruction ''FOR'' (accountKeywordAfterFrom + 7) of
        None \<Rightarrow> None
      | Some forIndex \<Rightarrow>
     let debitAccount =
           trim (extractBetween trimmedInstruction (accountKeywordAfterFrom + 7) (Some forIndex))
     in
     (case findKeywordIndex trimmedInstruction ''CREDIT'' forIndex of
        None \<Rightarrow> None
      | Some creditIndex \<Rightarrow>
     (case findKeywordIndex trimmedInstruction ''TO'' (creditIndex + 6) of
        None \<Rightarrow> None
      | Some toIndex \<Rightarrow>
     (case findKeywordIndex trimmedInstruction ''ACCOUNT'' toIndex of
        None \<Rightarrow> None
      | Some accountKeywordAfterTo \<Rightarrow>
     let onIndex = findKeywordIndex trimmedInstruction ''ON'' (accountKeywordAfterTo + 7);
         (creditAccount, executeBy) =
           (case onIndex of
              Some oi \<Rightarrow>
                (trim (extractBetween trimmedInstruction (accountKeywordAfterTo + 7) (Some oi)),
                 Some (trim (extractBetween trimmedInstruction (oi + 2) None)))
            | None \<Rightarrow>
                (trim (extractBetween trimmedInstruction (accountKeywordAfterTo + 7) None), None))
     in Some \<lparr>p_type = DEBIT, p_amount = amount, p_currency = currency,
              p_debitAccount = debitAccount, p_creditAccount = creditAccount,
              p_executeBy = orNull executeBy\<rparr>))))))"

definition parseCredit :: "string \<Rightarrow> parsed_instruction option" where
  "parseCredit trimmedInstruction =
     (case findKeywordIndex trimmedInstruction ''TO'' 6 of
        None \<Rightarrow> None
      | Some toIndex \<Rightarrow>
     let amountCurrencyPart = extractBetween trimmedInstruction 6 (Some toIndex);
         tokens = amountCurrencyTokens amountCurrencyPart
     in if length tokens < 2 then None else
     let amount = tokens ! 0;
         currency = toUpperCase (tokens ! 1)
     in
     (case findKeywordIndex trimmedInstruction ''ACCOUNT'' toIndex of
        None \<Rightarrow> None
      | Some accountKeywordAfterTo \<Rightarrow>
     (case findKeywordIndex trimmedInstruction ''FOR'' (accountKeywordAfterTo + 7) of
        None \<Rightarrow> None
      | Some forIndex \<Rightarrow>
     let creditAccount =
           trim (extractBetween trimmedInstruction (accountKeywordAfterTo + 7) (Some forIndex))
     in
     (case findKeywordIndex trimmedInstruction ''DEBIT'' forIndex of
        None \<Rightarrow> None
      | Some debitIndex \<Rightarrow>
     (case findKeywordIndex trimmedInstruction ''FROM'' (debitIndex + 5) of
        None \<Rightarrow> None
      | Some fromIndex \<Rightarrow>
     (case findKeywordIndex trimmedInstruction ''ACCOUNT'' fromIndex of
        None \<Rightarrow> None
      | Some accountKeywordAfterFrom \<Rightarrow>
     let onIndex = findKeywordIndex trimmedInstruction ''ON'' (accountKeywordAfterFrom + 7);
         (debitAccount, executeBy) =
           (case onIndex of
              Some oi \<Rightarrow>
                (trim (extractBetween trimmedInstruction (accountKeywordAfterFrom + 7) (Some oi)),
                 Some (trim (extractBetween trimmedInstruction (oi + 2) None)))
            | None \<Rightarrow>
                (trim (extractBetween trimmedInstruction (accountKeywordAfterFrom + 7) None), None))
     in Some \<lparr>p_type = CREDIT, p_amount = amount, p_currency = currency,
              p_debitAccount = debitAccount, p_creditAccount = creditAccount,
              p_executeBy = orNull executeBy\<rparr>))))))"

definition parseInstruction :: "string \<Rightarrow> parsed_instruction option" where
  "parseInstruction instruction =
     (let trimmedInstruction = trim instruction;
          startsWithDebit = (findKeywordIndex trimmedInstruction ''DEBIT'' 0 = Some 0);
          startsWithCredit = (findKeywordIndex trimmedInstruction ''CREDIT'' 0 = Some 0)
      in if \<not> startsWithDebit \<and> \<not> startsWithCredit then None
         else if startsWithDebit then parseDebit trimmedInstruction
         else parseCredit trimmedInstruction)"

section \<open>Well-formed instruction texts\<close>

text \<open>
  The vocabulary in which the behaviour of the parser on well-formed texts is stated.
  A gap is a non-empty run of white space; the amount and the currency are separated by
  space characters, the only separator \<open>split(' ')\<close> knows. A token is a non-empty word
  without white space. A keyword may be spelled in any letter case. A text lacks a
  keyword when the case-insensitive search of the parser does not find it anywhere, and
  it ends with a keyword when its last characters spell it.
\<close>

definition whitespace :: "string \<Rightarrow> bool" where
  "whitespace g \<longleftrightarrow> list_all isWhiteSpace g"

definition gap :: "string \<Rightarrow> bool" where
  "gap g \<longleftrightarrow> g \<noteq> [] \<and> list_all isWhiteSpace g"

definition spaces :: "string \<Rightarrow> bool" where
  "spaces g \<longleftrightarrow> g \<noteq> [] \<and> list_all (\<lambda>c. c = CHR '' '') g"

definition token :: "string \<Rightarrow> bool" where
  "token t \<longleftrightarrow> t \<noteq> [] \<and> list_all (\<lambda>c. \<not> isWhiteSpace c) t"

definition trimmed :: "string \<Rightarrow> bool" where
  "trimmed t \<longleftrightarrow> t = [] \<or> (\<not> isWhiteSpace (hd t) \<and> \<not> isWhiteSpace (last t))"

definition spelled :: "string \<Rightarrow> string \<Rightarrow> bool" where
  "spelled k keyword \<longleftrightarrow> toLowerCase k = toLowerCase keyword"

definition lacks :: "string \<Rightarrow> string \<Rightarrow> bool" where
  "lacks t keyword \<longleftrightarrow> findKeywordIndex t keyword 0 = None"

definition endsWith :: "string \<Rightarrow> string \<Rightarrow> bool" where
  "endsWith t keyword \<longleftrightarrow>
     length keyword \<le> length t \<and> spelled (drop (length t - length keyword) t) keyword"

text \<open>
  The optional clause at the end of an instruction: the gap before \<open>ON\<close>, the keyword as
  spelled, the white space after it and the date text, which is trimmed and may be empty.
  \<open>onDate\<close> is the execute-by date expected from it. After the instruction has been
  trimmed, white space that followed \<open>ON\<close> with no date is gone (\<open>seenClause\<close>).
\<close>

definition onText :: "(string \<times> string \<times> string \<times> string) option \<Rightarrow> string" where
  "onText on = (case on of None \<Rightarrow> [] | Some (g, k, h, d) \<Rightarrow> g @ k @ h @ d)"

definition onDate :: "(string \<times> string \<times> string \<times> string) option \<Rightarrow> string option" where
  "onDate on = (case on of None \<Rightarrow> None | Some (g, k, h, d) \<Rightarrow> if d = [] then None else Some d)"

definition onClause :: "(string \<times> string \<times> string \<times> string) option \<Rightarrow> bool" where
  "onClause on \<longleftrightarrow>
     (case on of
        None \<Rightarrow> True
      | Some (g, k, h, d) \<Rightarrow> gap g \<and> spelled k ''ON'' \<and> whitespace h \<and> trimmed d)"

definition seenClause ::
  "(string \<times> string \<times> string \<times> string) option \<Rightarrow> (string \<times> string \<times> string \<times> string) option"
where
  "seenClause oc =
     (case oc of None \<Rightarrow> None
      | Some (g, k, h, d) \<Rightarrow> if d = [] then Some (g, k, [], []) else Some (g, k, h, d))"

text \<open>
  The spelling of the seven keywords of an instruction and the white space around its
  words, in the order of the text. \<open>instructionText\<close> writes the instruction out:
  for a debit \<open>DEBIT amount currency FROM ACCOUNT a FOR CREDIT TO ACCOUNT b\<close>, for a credit
  \<open>CREDIT amount currency TO ACCOUNT a FOR DEBIT FROM ACCOUNT b\<close>, each with the optional
  clause. \<open>wordingOf\<close> says which keywords the wording spells and that its gaps are gaps.
\<close>

record wording =
  w_lead :: string
  w_type :: string
  w_gap1 :: string
  w_space :: string
  w_gap2 :: string
  w_dir1 :: string
  w_gap3 :: string
  w_account1 :: string
  w_gap4 :: string
  w_gap5 :: string
  w_for :: string
  w_gap6 :: string
  w_party :: string
  w_gap7 :: string
  w_dir2 :: string
  w_gap8 :: string
  w_account2 :: string
  w_gap9 :: string
  w_trail :: string

definition instructionText ::
  "wording \<Rightarrow> string \<Rightarrow> string \<Rightarrow> string \<Rightarrow> string \<Rightarrow>
   (string \<times> string \<times> string \<times> string) option \<Rightarrow> string"
where
  "instructionText w amount currency account1 account2 oc =
     w_lead w @ w_type w @ w_gap1 w @ amount @ w_space w @ currency @ w_gap2 w @ w_dir1 w
       @ w_gap3 w @ w_account1 w @ w_gap4 w @ account1 @ w_gap5 w @ w_for w @ w_gap6 w
       @ w_party w @ w_gap7 w @ w_dir2 w @ w_gap8 w @ w_account2 w @ w_gap9 w @ account2
       @ onText oc @ w_trail w"

definition wordingOf :: "string \<Rightarrow> string \<Rightarrow> string \<Rightarrow> string \<Rightarrow> wording \<Rightarrow> bool" where
  "wordingOf type dir1 party dir2 w \<longleftrightarrow>
     whitespace (w_lead w) \<and> whitespace (w_trail w) \<and>
     spelled (w_type w) type \<and> spelled (w_dir1 w) dir1 \<and>
     spelled (w_account1 w) ''ACCOUNT'' \<and> spelled (w_for w) ''FOR'' \<and>
     spelled (w_party w) party \<and> spelled (w_dir2 w) dir2 \<and>
     spelled (w_account2 w) ''ACCOUNT'' \<and>
     gap (w_gap1 w) \<and> spaces (w_space w) \<and> gap (w_gap2 w) \<and> gap (w_gap3 w) \<and>
     gap (w_gap4 w) \<and> gap (w_gap5 w) \<and> gap (w_gap6 w) \<and> gap (w_gap7 w) \<and>
     gap (w_gap8 w) \<and> gap (w_gap9 w)"

section \<open>The scheme of the two parser branches\<close>

text \<open>
  The scheme common to the two branches of the parser: the keyword after the amount and
  currency, the keyword of the other party with its length, and the keyword before the
  second account. It returns the amount, the currency, the first and the second account
  and the execute-by date.
\<close>

definition parseScheme ::
  "nat \<Rightarrow> string \<Rightarrow> string \<Rightarrow> nat \<Rightarrow> string \<Rightarrow> string \<Rightarrow>
   (string \<times> string \<times> string \<times> string \<times> string option) option"
where
  "parseScheme n0 k1 km nm k2 t =
     (case findKeywordIndex t k1 n0 of
        None \<Rightarrow> None
      | Some i1 \<Rightarrow>
     let tokens = amountCurrencyTokens (extractBetween t n0 (Some i1))
     in if length tokens < 2 then None else
     (case findKeywordIndex t ''ACCOUNT'' i1 of
        None \<Rightarrow> None
      | Some a1 \<Rightarrow>
     (case findKeywordIndex t ''FOR'' (a1 + 7) of
        None \<Rightarrow> None
      | Some forIndex \<Rightarrow>
     (case findKeywordIndex t km forIndex of
        None \<Rightarrow> None
      | Some im \<Rightarrow>
     (case findKeywordIndex t k2 (im + nm) of
        None \<Rightarrow> None
      | Some i2 \<Rightarrow>
     (case findKeywordIndex t ''ACCOUNT'' i2 of
        None \<Rightarrow> None
      | Some a2 \<Rightarrow>
     Some (tokens ! 0, toUpperCase (tokens ! 1),
           trim (extractBetween t (a1 + 7) (Some forIndex)),
           (case findKeywordIndex t ''ON'' (a2 + 7) of
              Some oi \<Rightarrow>
                (trim (extractBetween t (a2 + 7) (Some oi)),
                 orNull (Some (trim (extractBetween t (oi + 2) None))))
            | None \<Rightarrow> (trim (extractBetween t (a2 + 7) None), None)))))))))"

text \<open>
  A stretch of text that the search for a keyword passes over: whatever follows, the
  first occurrence of the keyword lies behind it.
\<close>

definition skippable :: "string \<Rightarrow> string \<Rightarrow> bool" where
  "skippable kw m \<longleftrightarrow> (\<forall>xs k. indexOfAux kw (m @ xs) k = indexOfAux kw xs (k + length m))"

section \<open>The transaction processor\<close>

text \<open>
  An account as the caller supplies it; the balance is an integer, as the data model has
  it, and the number \<open>Num (acc_balance acc)\<close> in the service. The balances of a snapshot
  are numbers: a new balance is a rounded sum or difference.
\<close>

record account =
  acc_id :: string
  acc_balance :: int
  acc_currency :: string

record account_snapshot =
  snap_id :: string
  balance :: number
  balance_before :: number
  snap_currency :: string

datatype status = successful | pending | failed

datatype status_code =
  AM01 | CU01 | CU02 | AC01 | AC02 | AC03 | AC04 | DT01 | SY01 | SY02 | SY03 | AP00 | AP02

text \<open>The \<open>amount\<close> of a response is \<open>null\<close>, here \<open>None\<close>, or a number.\<close>

record response =
  r_type :: "instruction_type option"
  r_amount :: "number option"
  r_currency :: "string option"
  debit_account :: "string option"
  credit_account :: "string option"
  execute_by :: "string option"
  status :: status
  status_reason :: string
  status_code :: status_code
  r_accounts :: "account_snapshot list"

text \<open>
  The message texts (\<open>PaymentMessages\<close> of the module \<open>@app/messages\<close>) are constants
  defined outside the service; the processor takes them as a parameter.
\<close>

record payment_messages =
  MALFORMED_INSTRUCTION :: string
  INVALID_AMOUNT :: string
  INVALID_ACCOUNT_ID :: string
  INVALID_DATE_FORMAT :: string
  UNSUPPORTED_CURRENCY :: string
  SAME_ACCOUNT_ERROR :: string
  ACCOUNT_NOT_FOUND :: string
  CURRENCY_MISMATCH :: string
  INSUFFICIENT_FUNDS :: string
  TRANSACTION_SUCCESSFUL :: string
  TRANSACTION_PENDING :: string

text \<open>The snapshot every failure branch builds from an account.\<close>

definition originalBalance :: "account \<Rightarrow> account_snapshot" where
  "originalBalance acc =
     \<lparr>snap_id = acc_id acc, balance = Num (acc_balance acc),
      balance_before = Num (acc_balance acc),
      snap_currency = toUpperCase (acc_currency acc)\<rparr>"

definition accountsWithOriginalBalances :: "account list \<Rightarrow> account_snapshot list" where
  "accountsWithOriginalBalances accounts = map originalBalance accounts"

text \<open>The \<open>forEach\<close> loops that push a snapshot of each account of the transaction.\<close>

definition transactionAccounts :: "account list \<Rightarrow> string \<Rightarrow> string \<Rightarrow> account_snapshot list" where
  "transactionAccounts accounts debitAccount creditAccount =
     map originalBalance
       (filter (\<lambda>acc. acc_id acc = debitAccount \<or> acc_id acc = creditAccount) accounts)"

fun executedAccounts ::
  "account list \<Rightarrow> string \<Rightarrow> string \<Rightarrow> number \<Rightarrow> number \<Rightarrow> account \<Rightarrow> account \<Rightarrow>
   account_snapshot list"
where
  "executedAccounts [] debitAccount creditAccount newDebitBalance newCreditBalance
     debitAccountObj creditAccountObj = []"
| "executedAccounts (acc # rest) debitAccount creditAccount newDebitBalance newCreditBalance
     debitAccountObj creditAccountObj =
     (let others = executedAccounts rest debitAccount creditAccount newDebitBalance
                     newCreditBalance debitAccountObj creditAccountObj
      in if acc_id acc = debitAccount then
           \<lparr>snap_id = acc_id acc, balance = newDebitBalance,
            balance_before = Num (acc_balance debitAccountObj),
            snap_currency = toUpperCase (acc_currency acc)\<rparr> # others
         else if acc_id acc = creditAccount then
           \<lparr>snap_id = acc_id acc, balance = newCreditBalance,
            balance_before = Num (acc_balance creditAccountObj),
            snap_currency = toUpperCase (acc_currency acc)\<rparr> # others
         else others)"

text \<open>The response literal shared by every branch after a successful parse.\<close>

definition mkResponse ::
  "parsed_instruction \<Rightarrow> number option \<Rightarrow> status \<Rightarrow> string \<Rightarrow> status_code \<Rightarrow>
   account_snapshot list \<Rightarrow> response"
where
  "mkResponse parsed amt st reason code accs =
     \<lparr>r_type = Some (p_type parsed), r_amount = amt, r_currency = Some (p_currency parsed),
      debit_account = Some (p_debitAccount parsed),
      credit_account = Some (p_creditAccount parsed),
      execute_by = p_executeBy parsed, status = st, status_reason = reason, status_code = code,
      r_accounts = accs\<rparr>"

definition unparseableResponse :: "payment_messages \<Rightarrow> response" where
  "unparseableResponse msgs =
     \<lparr>r_type = None, r_amount = None, r_currency = None, debit_account = None,
      credit_account = None, execute_by = None, status = failed,
      status_reason = MALFORMED_INSTRUCTION msgs @ '': unable to parse keywords'',
      status_code = SY03, r_accounts = []\<rparr>"

text \<open>\<open>amount ? parseInt(amount, 10) : null\<close>: the empty token gives \<open>null\<close>.\<close>

definition amountOrNull :: "string \<Rightarrow> number option" where
  "amountOrNull amount = (if amount \<noteq> [] then Some (parseInt amount) else None)"

text \<open>
  The part of \<open>parsePaymentInstruction\<close> after a successful parse: the validations in the
  order of the source, then execution. An execute-by date counts when it is truthy, that
  is neither \<open>null\<close> nor empty. The balance of the debit account is compared with
  \<open>amountInt\<close>, and the new balances are computed from it, as numbers.
\<close>

definition processParsed ::
  "payment_messages \<Rightarrow> int \<Rightarrow> account list \<Rightarrow> parsed_instruction \<Rightarrow> response"
where
  "processParsed msgs now accounts parsed =
     (let amount = p_amount parsed; currency = p_currency parsed;
          debitAccount = p_debitAccount parsed; creditAccount = p_creditAccount parsed;
          executeBy = p_executeBy parsed
      in
      if \<not> isPositiveInteger amount then
        mkResponse parsed (amountOrNull amount) failed (INVALID_AMOUNT msgs) AM01
          (accountsWithOriginalBalances accounts)
      else
      let amountInt = parseInt amount in
      if \<not> isValidAccountId debitAccount then
        mkResponse parsed (Some amountInt) failed
          (INVALID_ACCOUNT_ID msgs @ '': '' @ debitAccount) AC04
          (accountsWithOriginalBalances accounts)
      else if \<not> isValidAccountId creditAccount then
        mkResponse parsed (Some amountInt) failed
          (INVALID_ACCOUNT_ID msgs @ '': '' @ creditAccount) AC04
          (accountsWithOriginalBalances accounts)
      else if (case executeBy of None \<Rightarrow> False | Some d \<Rightarrow> d \<noteq> [] \<and> \<not> isValidDate d) then
        mkResponse parsed (Some amountInt) failed (INVALID_DATE_FORMAT msgs) DT01
          (accountsWithOriginalBalances accounts)
      else if currency \<notin> set SUPPORTED_CURRENCIES then
        mkResponse parsed (Some amountInt) failed
          (UNSUPPORTED_CURRENCY msgs @ ''. Only NGN, USD, GBP, and GHS are supported'') CU02
          (accountsWithOriginalBalances accounts)
      else if debitAccount = creditAccount then
        mkResponse parsed (Some amountInt) failed (SAME_ACCOUNT_ERROR msgs) AC02
          (accountsWithOriginalBalances accounts)
      else
      (case find (\<lambda>acc. acc_id acc = debitAccount) accounts of
         None \<Rightarrow>
           mkResponse parsed (Some amountInt) failed
             (ACCOUNT_NOT_FOUND msgs @ '': '' @ debitAccount) AC03
             (accountsWithOriginalBalances accounts)
       | Some debitAccountObj \<Rightarrow>
      (case find (\<lambda>acc. acc_id acc = creditAccount) accounts of
         None \<Rightarrow>
           mkResponse parsed (Some amountInt) failed
             (ACCOUNT_NOT_FOUND msgs @ '': '' @ creditAccount) AC03
             (accountsWithOriginalBalances accounts)
       | Some creditAccountObj \<Rightarrow>
      if toUpperCase (acc_currency debitAccountObj) \<noteq> toUpperCase (acc_currency creditAccountObj)
      then
        mkResponse parsed (Some amountInt) failed (CURRENCY_MISMATCH msgs) CU01
          (transactionAccounts accounts debitAccount creditAccount)
      else if currency \<noteq> toUpperCase (acc_currency debitAccountObj) then
        mkResponse parsed (Some amountInt) failed (CURRENCY_MISMATCH msgs) CU01
          (transactionAccounts accounts debitAccount creditAccount)
      else if numberLess (Num (acc_balance debitAccountObj)) amountInt then
        mkResponse parsed (Some amountInt) failed
          (INSUFFICIENT_FUNDS msgs @ '': has '' @ showNumber (Num (acc_balance debitAccountObj))
             @ '' '' @ currency @ '', needs '' @ showNumber amountInt @ '' '' @ currency) AC01
          (transactionAccounts accounts debitAccount creditAccount)
      else
      let shouldExecute =
            (case executeBy of
               None \<Rightarrow> True
             | Some d \<Rightarrow> \<not> (d \<noteq> [] \<and> compareDateWithToday now d = future));
          newDebitBalance =
            (if shouldExecute then numberSub (Num (acc_balance debitAccountObj)) amountInt
             else Num (acc_balance debitAccountObj));
          newCreditBalance =
            (if shouldExecute then numberAdd (Num (acc_balance creditAccountObj)) amountInt
             else Num (acc_balance creditAccountObj));
          transactionAccounts =
            executedAccounts accounts debitAccount creditAccount newDebitBalance
              newCreditBalance debitAccountObj creditAccountObj
      in if shouldExecute then
           mkResponse parsed (Some amountInt) successful (TRANSACTION_SUCCESSFUL msgs) AP00
             transactionAccounts
         else
           mkResponse parsed (Some amountInt) pending (TRANSACTION_PENDING msgs) AP02
             transactionAccounts)))"

text \<open>
  \<open>parsePaymentInstruction(serviceData, options)\<close>. The input has passed the shape
  validation of the caller: a list of accounts and an instruction string. The second
  parameter \<open>options\<close> is never read by the source and is left out; \<open>now\<close> is the reading
  of the system clock that \<open>compareDateWithToday\<close> takes.
\<close>

definition parsePaymentInstruction ::
  "payment_messages \<Rightarrow> int \<Rightarrow> account list \<Rightarrow> string \<Rightarrow> response"
where
  "parsePaymentInstruction msgs now accounts instruction =
     (case parseInstruction instruction of
        None \<Rightarrow> unparseableResponse msgs
      | Some parsed \<Rightarrow> processParsed msgs now accounts parsed)"

section \<open>The validation chain as the specification lists it\<close>

text \<open>
  The eleven checks in the order and in the words of the specification, each with the
  code it fails with. The debit and the credit account are the first accounts of the
  list with the given id. The currencies are compared as they are, and the balance is
  compared with the amount the instruction writes, an integer of any size.
\<close>

definition spec_lookup :: "account list \<Rightarrow> string \<Rightarrow> account option" where
  "spec_lookup accounts i = find (\<lambda>acc. acc_id acc = i) accounts"

definition spec_amount :: "parsed_instruction \<Rightarrow> int" where
  "spec_amount p = digitsVal (p_amount p)"

definition spec_validation_chain ::
  "account list \<Rightarrow> parsed_instruction \<Rightarrow> (bool \<times> status_code) list"
where
  "spec_validation_chain accounts p =
     (let debit = spec_lookup accounts (p_debitAccount p);
          credit = spec_lookup accounts (p_creditAccount p)
      in
      [(isPositiveInteger (p_amount p), AM01),
       (isValidAccountId (p_debitAccount p), AC04),
       (isValidAccountId (p_creditAccount p), AC04),
       ((case p_executeBy p of None \<Rightarrow> True | Some d \<Rightarrow> isValidDate d), DT01),
       (p_currency p \<in> set SUPPORTED_CURRENCIES, CU02),
       (p_debitAccount p \<noteq> p_creditAccount p, AC02),
       (debit \<noteq> None, AC03),
       (credit \<noteq> None, AC03),
       ((case (debit, credit) of
           (Some d, Some c) \<Rightarrow> acc_currency d = acc_currency c
         | _ \<Rightarrow> True), CU01),
       ((case debit of
           Some d \<Rightarrow> p_currency p = acc_currency d
         | None \<Rightarrow> True), CU01),
       ((case debit of
           Some d \<Rightarrow> acc_balance d \<ge> spec_amount p
         | None \<Rightarrow> True), AC01)])"

definition spec_first_failure :: "account list \<Rightarrow> parsed_instruction \<Rightarrow> status_code option" where
  "spec_first_failure accounts p =
     map_option snd (find (\<lambda>(ok, code). \<not> ok) (spec_validation_chain accounts p))"

section \<open>The validation chain as the processor runs it\<close>

text \<open>
  The same eleven checks with the conditions of the source: the currency of an account
  is read in upper case, and the balance is compared with the number that \<open>parseInt\<close>
  makes of the amount.
\<close>

definition validation_chain ::
  "account list \<Rightarrow> parsed_instruction \<Rightarrow> (bool \<times> status_code) list"
where
  "validation_chain accounts p =
     (let debit = find (\<lambda>acc. acc_id acc = p_debitAccount p) accounts;
          credit = find (\<lambda>acc. acc_id acc = p_creditAccount p) accounts
      in
      [(isPositiveInteger (p_amount p), AM01),
       (isValidAccountId (p_debitAccount p), AC04),
       (isValidAccountId (p_creditAccount p), AC04),
       ((case p_executeBy p of None \<Rightarrow> True | Some d \<Rightarrow> isValidDate d), DT01),
       (p_currency p \<in> set SUPPORTED_CURRENCIES, CU02),
       (p_debitAccount p \<noteq> p_creditAccount p, AC02),
       (debit \<noteq> None, AC03),
       (credit \<noteq> None, AC03),
       ((case (debit, credit) of
           (Some d, Some c) \<Rightarrow> toUpperCase (acc_currency d) = toUpperCase (acc_currency c)
         | _ \<Rightarrow> True), CU01),
       ((case debit of
           Some d \<Rightarrow> p_currency p = toUpperCase (acc_currency d)
         | None \<Rightarrow> True), CU01),
       ((case debit of
           Some d \<Rightarrow> \<not> numberLess (Num (acc_balance d)) (parseInt (p_amount p))
         | None \<Rightarrow> True), AC01)])"

definition first_failure :: "account list \<Rightarrow> parsed_instruction \<Rightarrow> status_code option" where
  "first_failure accounts p =
     map_option snd (find (\<lambda>(ok, code). \<not> ok) (validation_chain accounts p))"

section \<open>Progress through the validation chain\<close>

text \<open>
  Names for how far \<open>processParsed\<close> has come, in the terms of its own conditions;
  the lemmas about the processor are stated with them. First: the four checks on the
  format of the fields have passed.
\<close>

definition formatsPass :: "parsed_instruction \<Rightarrow> bool" where
  "formatsPass p \<longleftrightarrow>
     isPositiveInteger (p_amount p) \<and> isValidAccountId (p_debitAccount p) \<and>
     isValidAccountId (p_creditAccount p) \<and>
     \<not> (case p_executeBy p of None \<Rightarrow> False | Some d \<Rightarrow> d \<noteq> [] \<and> \<not> isValidDate d)"

text \<open>The first six checks, which do not look at the accounts, have passed.\<close>

definition fieldsPass :: "parsed_instruction \<Rightarrow> bool" where
  "fieldsPass p \<longleftrightarrow>
     formatsPass p \<and> p_currency p \<in> set SUPPORTED_CURRENCIES \<and>
     p_debitAccount p \<noteq> p_creditAccount p"

text \<open>Both accounts of the transaction have been found as well.\<close>

definition accountsFound ::
  "account list \<Rightarrow> parsed_instruction \<Rightarrow> account \<Rightarrow> account \<Rightarrow> bool"
where
  "accountsFound accounts p debitAccountObj creditAccountObj \<longleftrightarrow>
     fieldsPass p \<and>
     find (\<lambda>acc. acc_id acc = p_debitAccount p) accounts = Some debitAccountObj \<and>
     find (\<lambda>acc. acc_id acc = p_creditAccount p) accounts = Some creditAccountObj"

text \<open>All eleven checks have passed; the amount is then a positive integer.\<close>

definition allChecksPass ::
  "account list \<Rightarrow> parsed_instruction \<Rightarrow> account \<Rightarrow> account \<Rightarrow> int \<Rightarrow> bool"
where
  "allChecksPass accounts p debitAccountObj creditAccountObj n \<longleftrightarrow>
     accountsFound accounts p debitAccountObj creditAccountObj \<and>
     parseInt (p_amount p) = Num n \<and>
     toUpperCase (acc_currency debitAccountObj) = toUpperCase (acc_currency creditAccountObj) \<and>
     p_currency p = toUpperCase (acc_currency debitAccountObj) \<and>
     \<not> acc_balance debitAccountObj < n"

section \<open>Accounts that differ in the case of the currency\<close>

text \<open>Two accounts with the same id and balance whose currencies agree in upper case.\<close>

definition sameUpToCase :: "account \<Rightarrow> account \<Rightarrow> bool" where
  "sameUpToCase a b \<longleftrightarrow>
     acc_id a = acc_id b \<and> acc_balance a = acc_balance b \<and>
     toUpperCase (acc_currency a) = toUpperCase (acc_currency b)"

section \<open>The message of each status code\<close>

text \<open>
  The message constant with which each branch of the processor begins its
  \<open>status_reason\<close>. SY01 and SY02 are in the table of codes but no branch uses them.
\<close>

definition codeMessage :: "payment_messages \<Rightarrow> status_code \<Rightarrow> string" where
  "codeMessage msgs code =
     (case code of
        AM01 \<Rightarrow> INVALID_AMOUNT msgs
      | CU01 \<Rightarrow> CURRENCY_MISMATCH msgs
      | CU02 \<Rightarrow> UNSUPPORTED_CURRENCY msgs
      | AC01 \<Rightarrow> INSUFFICIENT_FUNDS msgs
      | AC02 \<Rightarrow> SAME_ACCOUNT_ERROR msgs
      | AC03 \<Rightarrow> ACCOUNT_NOT_FOUND msgs
      | AC04 \<Rightarrow> INVALID_ACCOUNT_ID msgs
      | DT01 \<Rightarrow> INVALID_DATE_FORMAT msgs
      | SY01 \<Rightarrow> []
      | SY02 \<Rightarrow> []
      | SY03 \<Rightarrow> MALFORMED_INSTRUCTION msgs
      | AP00 \<Rightarrow> TRANSACTION_SUCCESSFUL msgs
      | AP02 \<Rightarrow> TRANSACTION_PENDING msgs)"

section \<open>Sample inputs\<close>

text \<open>
  Message texts after the status table of the README, and the accounts of its request
  example, for evaluating the processor on concrete inputs. The accounts of
  \<open>largeAccounts\<close> hold balances at the end of the range in which a double counts in
  steps of one: \<open>2^53\<close> is 9007199254740992.
\<close>

definition sampleMessages :: payment_messages where
  "sampleMessages =
     \<lparr>MALFORMED_INSTRUCTION = ''Malformed instruction'',
      INVALID_AMOUNT = ''Amount must be a positive integer'',
      INVALID_ACCOUNT_ID = ''Invalid account ID format'',
      INVALID_DATE_FORMAT = ''Invalid date format'',
      UNSUPPORTED_CURRENCY = ''Unsupported currency'',
      SAME_ACCOUNT_ERROR = ''Debit and credit accounts cannot be the same'',
      ACCOUNT_NOT_FOUND = ''Account not found'',
      CURRENCY_MISMATCH = ''Account currency mismatch'',
      INSUFFICIENT_FUNDS = ''Insufficient funds in debit account'',
      TRANSACTION_SUCCESSFUL = ''Transaction executed successfully'',
      TRANSACTION_PENDING = ''Transaction scheduled for future execution''\<rparr>"

definition sampleAccounts :: "account list" where
  "sampleAccounts =
     [\<lparr>acc_id = ''a'', acc_balance = 230, acc_currency = ''USD''\<rparr>,
      \<lparr>acc_id = ''b'', acc_balance = 300, acc_currency = ''USD''\<rparr>]"

definition largeAccounts :: "account list" where
  "largeAccounts =
     [\<lparr>acc_id = ''a'', acc_balance = 10, acc_currency = ''USD''\<rparr>,
      \<lparr>acc_id = ''b'', acc_balance = 9007199254740992, acc_currency = ''USD''\<rparr>]"

text \<open>A debit and a credit wording in mixed case with tabs, double spaces and a line end.\<close>

definition sampleWording :: wording where
  "sampleWording =
     \<lparr>w_lead = '' '', w_type = ''Debit'', w_gap1 = [CHR 0x09], w_space = ''  '',
      w_gap2 = '' '', w_dir1 = ''from'', w_gap3 = '' '', w_account1 = ''ACCOUNT'',
      w_gap4 = ''  '', w_gap5 = '' '', w_for = ''For'', w_gap6 = '' '', w_party = ''CREDIT'',
      w_gap7 = '' '', w_dir2 = ''to'', w_gap8 = '' '', w_account2 = ''Account'',
      w_gap9 = '' '', w_trail = [CHR 0x0A]\<rparr>"

definition sampleCreditWording :: wording where
  "sampleCreditWording =
     sampleWording \<lparr>w_type := ''credit'', w_dir1 := ''TO'', w_party := ''debit'',
       w_dir2 := ''From''\<rparr>"

section \<open>Properties of the parser's result\<close>

lemma orNull_nonempty: "orNull e \<noteq> Some []"
  by (simp add: orNull_def split: option.split)

lemma parseDebit_executeBy: "parseDebit t = Some p \<Longrightarrow> p_executeBy p \<noteq> Some []"
  by (auto simp: parseDebit_def Let_def orNull_nonempty split: option.splits if_splits prod.splits)

lemma parseCredit_executeBy: "parseCredit t = Some p \<Longrightarrow> p_executeBy p \<noteq> Some []"
  by (auto simp: parseCredit_def Let_def orNull_nonempty split: option.splits if_splits prod.splits)

lemma parseInstruction_executeBy: "parseInstruction s = Some p \<Longrightarrow> p_executeBy p \<noteq> Some []"
  by (auto simp: parseInstruction_def Let_def parseDebit_executeBy parseCredit_executeBy
      split: if_splits)

section \<open>Searching, trimming and splitting\<close>

subsection \<open>White space and letter case\<close>

lemma lowerChar_ws: "isWhiteSpace c \<Longrightarrow> lowerChar c = c"
proof -
  assume "isWhiteSpace c"
  then consider "c = CHR 0x09" | "c = CHR 0x0A" | "c = CHR 0x0B" | "c = CHR 0x0C"
    | "c = CHR 0x0D" | "c = CHR 0x20"
    by (auto simp: isWhiteSpace_def)
  then show ?thesis
    by cases (simp_all add: lowerChar_def upperLetters_def lowerLetters_def)
qed

lemma toLowerCase_ws: "whitespace g \<Longrightarrow> toLowerCase g = g"
  by (induction g) (simp_all add: whitespace_def toLowerCase_def lowerChar_ws)

lemma toLowerCase_append: "toLowerCase (a @ b) = toLowerCase a @ toLowerCase b"
  by (simp add: toLowerCase_def)

lemma length_toLowerCase: "length (toLowerCase s) = length s"
  by (simp add: toLowerCase_def)

subsection \<open>The first occurrence of a keyword\<close>

lemma indexOfAux_here: "kw \<noteq> [] \<Longrightarrow> indexOfAux kw (kw @ rest) k = Some k"
  by (cases kw) simp_all

lemma indexOfAux_shift:
  "indexOfAux kw xs k = map_option (\<lambda>i. i + k) (indexOfAux kw xs 0)"
proof (induction xs arbitrary: k)
  case Nil
  show ?case by simp
next
  case (Cons c cs)
  have "indexOfAux kw cs (Suc k) = map_option (\<lambda>i. i + Suc k) (indexOfAux kw cs 0)"
    by (rule Cons.IH)
  moreover have "indexOfAux kw cs (Suc 0) = map_option (\<lambda>i. i + Suc 0) (indexOfAux kw cs 0)"
    by (rule Cons.IH)
  ultimately show ?case
    by (simp add: option.map_comp comp_def)
qed

lemma indexOfAux_None_shift: "indexOfAux kw xs 0 = None \<Longrightarrow> indexOfAux kw xs k = None"
  by (subst indexOfAux_shift) simp

lemma take_across:
  assumes "take (length kw) (a @ w # y) = kw" and "w \<notin> set kw"
  shows "take (length kw) a = kw"
proof (cases "length kw \<le> length a")
  case True
  with assms(1) show ?thesis by simp
next
  case False
  then have "take (length kw) (a @ w # y) = a @ w # take (length kw - length a - 1) y"
    by (simp add: take_Cons')
  with assms(1) have "w \<in> set kw"
    by (metis in_set_conv_decomp)
  with assms(2) show ?thesis by simp
qed

lemma indexOfAux_skip_token:
  assumes "indexOfAux kw t 0 = None" and "w \<notin> set kw" and "kw \<noteq> []"
  shows "indexOfAux kw (t @ w # xs) k = indexOfAux kw xs (k + length t + 1)"
  using assms(1)
proof (induction t arbitrary: k)
  case Nil
  have "take (length kw) (w # xs) \<noteq> kw"
    using take_across [of kw "[]" w xs] assms(2,3) by auto
  then show ?case by simp
next
  case (Cons c cs)
  from Cons.prems have no: "take (length kw) (c # cs) \<noteq> kw"
    and rest: "indexOfAux kw cs (Suc 0) = None"
    by (auto split: if_splits)
  from rest have "indexOfAux kw cs 0 = None"
    by (subst (asm) indexOfAux_shift) simp
  then have ih: "indexOfAux kw (cs @ w # xs) (Suc k) = indexOfAux kw xs (Suc k + length cs + 1)"
    by (rule Cons.IH)
  have "take (length kw) ((c # cs) @ w # xs) \<noteq> kw"
    using take_across [of kw "c # cs" w xs] assms(2) no by blast
  with ih show ?case by simp
qed

subsection \<open>Text that a search passes over\<close>

lemma skippable_Nil: "skippable kw []"
  by (simp add: skippable_def)

lemma skippable_append: "skippable kw a \<Longrightarrow> skippable kw b \<Longrightarrow> skippable kw (a @ b)"
  by (simp add: skippable_def add.assoc)

lemma token_not_ws: "token kw \<Longrightarrow> isWhiteSpace w \<Longrightarrow> w \<notin> set kw"
  by (auto simp: token_def list_all_iff)

lemma skippable_ws: "token kw \<Longrightarrow> isWhiteSpace w \<Longrightarrow> skippable kw [w]"
  unfolding skippable_def
proof (intro allI)
  fix xs k
  assume "token kw" and "isWhiteSpace w"
  then have "w \<notin> set kw" "kw \<noteq> []"
    by (simp_all add: token_not_ws) (simp add: token_def)
  moreover have "indexOfAux kw [] 0 = None"
    using \<open>kw \<noteq> []\<close> by simp
  ultimately have "indexOfAux kw ([] @ w # xs) k = indexOfAux kw xs (k + length ([]::string) + 1)"
    by (intro indexOfAux_skip_token)
  then show "indexOfAux kw ([w] @ xs) k = indexOfAux kw xs (k + length [w])"
    by simp
qed

lemma skippable_whitespace: "token kw \<Longrightarrow> whitespace g \<Longrightarrow> skippable kw g"
proof (induction g)
  case Nil
  show ?case by (rule skippable_Nil)
next
  case (Cons w g)
  then have "skippable kw [w]" "skippable kw g"
    by (simp_all add: whitespace_def skippable_ws)
  then have "skippable kw ([w] @ g)"
    by (rule skippable_append)
  then show ?case by simp
qed

lemma skippable_token:
  assumes "token kw" and "indexOfAux kw t 0 = None" and "gap g"
  shows "skippable kw (t @ g)"
proof -
  from assms(3) obtain w g' where g: "g = w # g'" "isWhiteSpace w" "whitespace g'"
    by (cases g) (auto simp: gap_def whitespace_def)
  from assms(1) g(2) have w: "w \<notin> set kw" and ne: "kw \<noteq> []"
    by (simp_all add: token_not_ws) (simp add: token_def)
  have "skippable kw (t @ [w])"
    unfolding skippable_def
    using indexOfAux_skip_token [OF assms(2) w ne] by simp
  moreover have "skippable kw g'"
    using assms(1) g(3) by (rule skippable_whitespace)
  ultimately have "skippable kw ((t @ [w]) @ g')"
    by (rule skippable_append)
  then show ?thesis by (simp add: g(1))
qed

lemma findKeywordIndex_at:
  assumes "length pre = start" and "skippable kw (toLowerCase mid)"
    and "toLowerCase k = kw" and "toLowerCase keyword = kw" and "kw \<noteq> []"
  shows "findKeywordIndex (pre @ mid @ k @ post) keyword start = Some (start + length mid)"
proof -
  have "indexOfAux kw (toLowerCase mid @ kw @ toLowerCase post) start =
          indexOfAux kw (kw @ toLowerCase post) (start + length (toLowerCase mid))"
    using assms(2) by (simp add: skippable_def)
  also have "\<dots> = Some (start + length mid)"
    using assms(5) by (simp add: indexOfAux_here length_toLowerCase)
  finally show ?thesis
    using assms(1,3,4)
    by (simp add: findKeywordIndex_def indexOf_def toLowerCase_append length_toLowerCase)
qed

lemma findKeywordIndex_none:
  assumes "length pre = start" and "skippable kw (toLowerCase mid)"
    and "indexOfAux kw (toLowerCase t) 0 = None" and "toLowerCase keyword = kw"
  shows "findKeywordIndex (pre @ mid @ t) keyword start = None"
proof -
  have "indexOfAux kw (toLowerCase mid @ toLowerCase t) start =
          indexOfAux kw (toLowerCase t) (start + length (toLowerCase mid))"
    using assms(2) by (simp add: skippable_def)
  also have "\<dots> = None"
    using assms(3) by (rule indexOfAux_None_shift)
  finally show ?thesis
    using assms(1,4)
    by (simp add: findKeywordIndex_def indexOf_def toLowerCase_append length_toLowerCase)
qed

lemma lacks_iff: "lacks t keyword \<longleftrightarrow> indexOfAux (toLowerCase keyword) (toLowerCase t) 0 = None"
  by (simp add: lacks_def findKeywordIndex_def indexOf_def)

subsection \<open>Substrings and trimming\<close>

lemma substring_mid:
  "substring (pre @ mid @ post) (length pre) (length pre + length mid) = mid"
  by (simp add: substring_def min_def max_def)

lemma substringFrom_rest: "substringFrom (pre @ rest) (length pre) = rest"
  by (simp add: substringFrom_def)

lemma trim_between:
  assumes "whitespace a" and "whitespace b" and "trimmed t"
  shows "trim (a @ t @ b) = t"
proof (cases "t = []")
  case True
  have "\<forall>x \<in> set (a @ b). isWhiteSpace x"
    using assms(1,2) by (auto simp: whitespace_def list_all_iff)
  then have dw: "dropWhile isWhiteSpace (a @ b) = []"
    by (simp only: dropWhile_eq_Nil_conv)
  have "trim (a @ b) = []"
    by (simp only: trim_def dw rev.simps dropWhile.simps)
  then show ?thesis
    by (simp only: True append_Nil)
next
  case False
  with assms(3) have h: "\<not> isWhiteSpace (hd t)" and l: "\<not> isWhiteSpace (last t)"
    by (simp_all add: trimmed_def)
  have "dropWhile isWhiteSpace (a @ t @ b) = dropWhile isWhiteSpace (t @ b)"
    by (rule dropWhile_append2) (use assms(1) in \<open>auto simp: whitespace_def list_all_iff\<close>)
  also have "\<dots> = t @ b"
    using False h by (cases t) simp_all
  finally have 1: "dropWhile isWhiteSpace (a @ t @ b) = t @ b" .
  have "dropWhile isWhiteSpace (rev b @ rev t) = dropWhile isWhiteSpace (rev t)"
    by (rule dropWhile_append2) (use assms(2) in \<open>auto simp: whitespace_def list_all_iff\<close>)
  also have "\<dots> = rev t"
    using False l by (cases t rule: rev_cases) simp_all
  finally show ?thesis
    by (simp add: trim_def 1)
qed

lemma trim_trimmed: "trimmed t \<Longrightarrow> trim t = t"
  using trim_between [of "[]" "[]" t] by (simp add: whitespace_def)

lemma token_trimmed: "token t \<Longrightarrow> trimmed t"
  using hd_in_set [of t] last_in_set [of t]
  by (auto simp: token_def trimmed_def list_all_iff)

subsection \<open>The amount and the currency\<close>

lemma splitAcc_whole: "sep \<notin> set t \<Longrightarrow> splitAcc sep cur t = [rev cur @ t]"
  by (induction t arbitrary: cur) auto

lemma splitAcc_first:
  "sep \<notin> set t \<Longrightarrow> splitAcc sep cur (t @ sep # r) = (rev cur @ t) # splitAcc sep [] r"
  by (induction t arbitrary: cur) auto

lemma tokens_after_spaces:
  assumes "list_all (\<lambda>c. c = sep) sp" and "sep \<notin> set t" and "t \<noteq> []"
  shows "filter (\<lambda>t. length t > 0) (splitAcc sep [] (sp @ t)) = [t]"
  using assms(1)
proof (induction sp)
  case Nil
  show ?case using assms(2,3) by (simp add: splitAcc_whole)
next
  case (Cons c sp)
  then show ?case by simp
qed

lemma amountCurrencyTokens_two:
  assumes "token amount" and "token currency" and "spaces sp"
  shows "amountCurrencyTokens (amount @ sp @ currency) = [amount, currency]"
proof -
  from assms(3) obtain sp' where sp: "sp = CHR '' '' # sp'" "list_all (\<lambda>c. c = CHR '' '') sp'"
    by (cases sp) (auto simp: spaces_def)
  have ws: "isWhiteSpace (CHR '' '')"
    by (simp add: isWhiteSpace_def)
  have a: "CHR '' '' \<notin> set amount" "amount \<noteq> []"
    and c: "CHR '' '' \<notin> set currency" "currency \<noteq> []"
    using assms(1,2) ws by (simp_all add: token_not_ws) (simp_all add: token_def)
  have "split CHR '' '' (amount @ sp @ currency) =
          amount # splitAcc CHR '' '' [] (sp' @ currency)"
    using a(1) by (simp add: split_def sp(1) splitAcc_first)
  then show ?thesis
    using a(2) tokens_after_spaces [OF sp(2) c]
    by (simp add: amountCurrencyTokens_def)
qed

subsection \<open>The parser on a well-formed text\<close>

lemma parseDebit_scheme:
  "parseDebit t =
     map_option (\<lambda>(a, c, x, y, e).
         \<lparr>p_type = DEBIT, p_amount = a, p_currency = c, p_debitAccount = x,
          p_creditAccount = y, p_executeBy = e\<rparr>)
       (parseScheme 5 ''FROM'' ''CREDIT'' 6 ''TO'' t)"
  by (simp add: parseDebit_def parseScheme_def Let_def orNull_def split: option.split)

lemma parseCredit_scheme:
  "parseCredit t =
     map_option (\<lambda>(a, c, x, y, e).
         \<lparr>p_type = CREDIT, p_amount = a, p_currency = c, p_debitAccount = y,
          p_creditAccount = x, p_executeBy = e\<rparr>)
       (parseScheme 6 ''TO'' ''DEBIT'' 5 ''FROM'' t)"
  by (simp add: parseCredit_def parseScheme_def Let_def orNull_def split: option.split)

lemma gap_whitespace: "gap g \<Longrightarrow> whitespace g"
  by (simp add: gap_def whitespace_def)

lemma whitespace_Nil: "whitespace []"
  by (simp add: whitespace_def)

lemma spaces_gap: "spaces sp \<Longrightarrow> gap sp"
  by (auto simp: spaces_def gap_def list_all_iff isWhiteSpace_def)

lemma trimmed_tokens:
  assumes "token a" and "token b"
  shows "trimmed (a @ m @ b)"
proof -
  from assms have "a \<noteq> []" "b \<noteq> []" "\<not> isWhiteSpace (hd a)" "\<not> isWhiteSpace (last b)"
    using hd_in_set [of a] last_in_set [of b] by (auto simp: token_def list_all_iff)
  then show ?thesis
    by (simp add: trimmed_def hd_append)
qed

lemma substring_at:
  "length pre = i \<Longrightarrow> i + length mid = j \<Longrightarrow> substring (pre @ mid @ post) i j = mid"
  using substring_mid [of pre mid post] by auto

lemma substringFrom_at: "length pre = i \<Longrightarrow> substringFrom (pre @ rest) i = rest"
  using substringFrom_rest [of pre rest] by auto

lemma parseScheme_canonical:
  fixes k1 km k2 :: string and nm :: nat
  assumes kw: "token (toLowerCase k1)" "token (toLowerCase km)" "token (toLowerCase k2)"
    and sep: "indexOfAux ''account'' (toLowerCase k1) 0 = None"
      "indexOfAux (toLowerCase km) ''for'' 0 = None"
      "indexOfAux ''account'' (toLowerCase k2) 0 = None"
    and sp: "spelled x1 k1" "spelled xa ''ACCOUNT''" "spelled xf ''FOR''" "spelled xm km"
      "spelled x2 k2" "spelled xb ''ACCOUNT''"
    and len: "length x0 = n0" "length xm = nm"
    and gaps: "whitespace g1" "spaces s" "gap g2" "gap g3" "whitespace g4" "gap g5" "gap g6"
      "whitespace g7" "gap g8" "whitespace g9"
    and toks: "token amount" "token currency" "token a" "token b"
    and free: "lacks amount k1" "lacks currency k1" "lacks a ''FOR''" "lacks b ''ON''"
    and onc: "onClause oc"
  shows "parseScheme n0 k1 km nm k2
           (x0 @ g1 @ amount @ s @ currency @ g2 @ x1 @ g3 @ xa @ g4 @ a @ g5 @ xf @ g6 @ xm
              @ g7 @ x2 @ g8 @ xb @ g9 @ b @ onText oc)
         = Some (amount, toUpperCase currency, a, b, onDate oc)"
proof -
  define Q1 where "Q1 = x0 @ g1 @ amount @ s @ currency @ g2"
  define Q2 where "Q2 = Q1 @ x1 @ g3"
  define Q3 where "Q3 = Q2 @ xa"
  define Q4 where "Q4 = Q3 @ g4 @ a @ g5"
  define Q5 where "Q5 = Q4 @ xf @ g6"
  define Q6 where "Q6 = Q5 @ xm"
  define Q7 where "Q7 = Q6 @ g7"
  define Q8 where "Q8 = Q7 @ x2 @ g8"
  define Q9 where "Q9 = Q8 @ xb"
  define t where "t = Q9 @ g9 @ b @ onText oc"
  note Qs = Q1_def Q2_def Q3_def Q4_def Q5_def Q6_def Q7_def Q8_def Q9_def
  have acc_kw: "toLowerCase ''ACCOUNT'' = ''account''" and for_kw: "toLowerCase ''FOR'' = ''for''"
    and on_kw: "toLowerCase ''ON'' = ''on''"
    by (simp_all add: toLowerCase_def lowerChar_def upperLetters_def lowerLetters_def)
  have tk: "token ''account''" "token ''for''" "token ''on''"
    by (simp_all add: token_def isWhiteSpace_def)
  have ne: "toLowerCase k1 \<noteq> []" "toLowerCase km \<noteq> []" "toLowerCase k2 \<noteq> []"
    using kw by (simp_all add: token_def)
  have l7: "length xa = 7" "length xb = 7"
    using sp(2,6) length_toLowerCase [of xa] length_toLowerCase [of xb]
    by (simp_all add: spelled_def acc_kw)
  have ws: "whitespace s" "whitespace g2" "whitespace g3" "whitespace g5" "whitespace g6"
      "whitespace g8" "gap s"
    using gaps by (simp_all add: gap_whitespace spaces_gap)
  note low = toLowerCase_append toLowerCase_ws
  \<comment> \<open>the keyword after the amount and the currency\<close>
  have t1: "t = x0 @ (g1 @ amount @ s @ currency @ g2) @ x1 @
              (g3 @ xa @ g4 @ a @ g5 @ xf @ g6 @ xm @ g7 @ x2 @ g8 @ xb @ g9 @ b @ onText oc)"
    by (simp add: t_def Qs)
  have "skippable (toLowerCase k1) (g1 @ (toLowerCase amount @ s) @ (toLowerCase currency @ g2))"
    using kw(1) gaps(1,3) ws(7) free(1,2)
    by (intro skippable_append skippable_whitespace skippable_token) (simp_all add: lacks_iff)
  then have "skippable (toLowerCase k1) (toLowerCase (g1 @ amount @ s @ currency @ g2))"
    using gaps(1) ws by (simp add: low)
  then have f1: "findKeywordIndex t k1 n0 = Some (length Q1)"
    unfolding t1 using len(1) sp(1) ne(1)
    by (subst findKeywordIndex_at [where kw = "toLowerCase k1"])
      (simp_all add: spelled_def Q1_def)
  \<comment> \<open>the first ACCOUNT\<close>
  have t2: "t = Q1 @ (x1 @ g3) @ xa @
              (g4 @ a @ g5 @ xf @ g6 @ xm @ g7 @ x2 @ g8 @ xb @ g9 @ b @ onText oc)"
    by (simp add: t_def Qs)
  have "skippable ''account'' (toLowerCase k1 @ g3)"
    using tk(1) sep(1) gaps(4) by (rule skippable_token)
  then have "skippable ''account'' (toLowerCase (x1 @ g3))"
    using sp(1) ws by (simp add: low spelled_def)
  then have f2: "findKeywordIndex t ''ACCOUNT'' (length Q1) = Some (length Q2)"
    unfolding t2 using sp(2)
    by (subst findKeywordIndex_at [where kw = "''account''"])
      (simp_all add: spelled_def acc_kw Q2_def)
  \<comment> \<open>FOR\<close>
  have t3: "t = Q3 @ (g4 @ a @ g5) @ xf @
              (g6 @ xm @ g7 @ x2 @ g8 @ xb @ g9 @ b @ onText oc)"
    by (simp add: t_def Qs)
  have "skippable ''for'' (g4 @ (toLowerCase a @ g5))"
    using tk(2) gaps(5,6) free(3)
    by (intro skippable_append skippable_whitespace skippable_token)
      (simp_all add: lacks_iff for_kw)
  then have "skippable ''for'' (toLowerCase (g4 @ a @ g5))"
    using gaps(5) ws by (simp add: low)
  then have f3: "findKeywordIndex t ''FOR'' (length Q2 + 7) = Some (length Q4)"
    unfolding t3 using sp(3) l7
    by (subst findKeywordIndex_at [where kw = "''for''"])
      (simp_all add: spelled_def for_kw Q3_def Q4_def)
  \<comment> \<open>the keyword of the other party\<close>
  have t4: "t = Q4 @ (xf @ g6) @ xm @ (g7 @ x2 @ g8 @ xb @ g9 @ b @ onText oc)"
    by (simp add: t_def Qs)
  have "skippable (toLowerCase km) (''for'' @ g6)"
    using kw(2) sep(2) gaps(7) by (rule skippable_token)
  then have "skippable (toLowerCase km) (toLowerCase (xf @ g6))"
    using sp(3) ws by (simp add: low spelled_def for_kw)
  then have f4: "findKeywordIndex t km (length Q4) = Some (length Q5)"
    unfolding t4 using sp(4) ne(2)
    by (subst findKeywordIndex_at [where kw = "toLowerCase km"])
      (simp_all add: spelled_def Q5_def)
  \<comment> \<open>the keyword before the second account\<close>
  have t5: "t = Q6 @ g7 @ x2 @ (g8 @ xb @ g9 @ b @ onText oc)"
    by (simp add: t_def Qs)
  have "skippable (toLowerCase k2) (toLowerCase g7)"
    using kw(3) gaps(8) by (simp add: low skippable_whitespace)
  then have f5: "findKeywordIndex t k2 (length Q5 + nm) = Some (length Q7)"
    unfolding t5 using sp(5) ne(3) len(2)
    by (subst findKeywordIndex_at [where kw = "toLowerCase k2"])
      (simp_all add: spelled_def Q6_def Q7_def)
  \<comment> \<open>the second ACCOUNT\<close>
  have t6: "t = Q7 @ (x2 @ g8) @ xb @ (g9 @ b @ onText oc)"
    by (simp add: t_def Qs)
  have "skippable ''account'' (toLowerCase k2 @ g8)"
    using tk(1) sep(3) gaps(9) by (rule skippable_token)
  then have "skippable ''account'' (toLowerCase (x2 @ g8))"
    using sp(5) ws by (simp add: low spelled_def)
  then have f6: "findKeywordIndex t ''ACCOUNT'' (length Q7) = Some (length Q8)"
    unfolding t6 using sp(6)
    by (subst findKeywordIndex_at [where kw = "''account''"])
      (simp_all add: spelled_def acc_kw Q8_def)
  \<comment> \<open>the amount, the currency and the first account\<close>
  have "substring t n0 (length Q1) = g1 @ amount @ s @ currency @ g2"
    unfolding t1 by (rule substring_at) (simp_all add: len(1) Q1_def)
  moreover have "trim (g1 @ (amount @ s @ currency) @ g2) = amount @ s @ currency"
    using gaps(1) ws(2) toks(1,2) by (intro trim_between trimmed_tokens)
  ultimately have "extractBetween t n0 (Some (length Q1)) = amount @ s @ currency"
    by (simp add: extractBetween_def)
  then have e1: "amountCurrencyTokens (extractBetween t n0 (Some (length Q1)))
                   = [amount, currency]"
    using toks(1,2) gaps(2) by (simp add: amountCurrencyTokens_two)
  have "substring t (length Q2 + 7) (length Q4) = g4 @ a @ g5"
    unfolding t3 by (rule substring_at) (simp_all add: l7 Q3_def Q4_def)
  then have e2: "trim (extractBetween t (length Q2 + 7) (Some (length Q4))) = a"
    using gaps(5) ws(4) toks(3)
    by (simp add: extractBetween_def trim_between trim_trimmed token_trimmed)
  \<comment> \<open>the second account and the date\<close>
  have t7: "t = Q9 @ g9 @ b @ onText oc"
    by (simp add: t_def)
  have l9: "length Q8 + 7 = length Q9"
    using l7 by (simp add: Q9_def)
  have e3: "(case findKeywordIndex t ''ON'' (length Q8 + 7) of
              Some oi \<Rightarrow>
                (trim (extractBetween t (length Q8 + 7) (Some oi)),
                 orNull (Some (trim (extractBetween t (oi + 2) None))))
            | None \<Rightarrow> (trim (extractBetween t (length Q8 + 7) None), None))
           = (b, onDate oc)"
  proof (cases oc)
    case None
    have "skippable ''on'' (toLowerCase g9)"
      using tk(3) gaps(10) by (simp add: low skippable_whitespace)
    then have "findKeywordIndex (Q9 @ g9 @ b) ''ON'' (length Q9) = None"
      using free(4)
      by (intro findKeywordIndex_none [where kw = "''on''"]) (simp_all add: lacks_iff on_kw)
    moreover have "substringFrom (Q9 @ g9 @ b) (length Q9) = g9 @ b"
      by (rule substringFrom_at) simp
    moreover have "trim (g9 @ b) = b" "trim b = b"
      using gaps(10) toks(4) trim_between [of g9 "[]" b]
      by (simp_all add: whitespace_Nil trim_trimmed token_trimmed)
    ultimately show ?thesis
      using None by (simp add: t7 l9 onText_def onDate_def extractBetween_def)
  next
    case (Some q)
    then obtain g k h d where q: "oc = Some (g, k, h, d)"
      by (cases q) auto
    with onc have o: "gap g" "spelled k ''ON''" "whitespace h" "trimmed d"
      by (simp_all add: onClause_def)
    have l2: "length k = 2"
      using o(2) length_toLowerCase [of k] by (simp add: spelled_def on_kw)
    have t8: "t = Q9 @ (g9 @ b @ g) @ k @ (h @ d)"
      by (simp add: t7 q onText_def)
    have "skippable ''on'' (g9 @ (toLowerCase b @ g))"
      using tk(3) gaps(10) o(1) free(4)
      by (intro skippable_append skippable_whitespace skippable_token)
        (simp_all add: lacks_iff on_kw)
    then have "skippable ''on'' (toLowerCase (g9 @ b @ g))"
      using gaps(10) o(1) by (simp add: low gap_whitespace)
    then have f7: "findKeywordIndex t ''ON'' (length Q9) = Some (length Q9 + length (g9 @ b @ g))"
      unfolding t8 using o(2)
      by (subst findKeywordIndex_at [where kw = "''on''"]) (simp_all add: spelled_def on_kw)
    have "substring t (length Q9) (length Q9 + length (g9 @ b @ g)) = g9 @ b @ g"
      unfolding t8 by (rule substring_mid)
    then have e4: "trim (extractBetween t (length Q9) (Some (length Q9 + length (g9 @ b @ g)))) = b"
      using gaps(10) o(1) toks(4)
      by (simp add: extractBetween_def trim_between trim_trimmed token_trimmed gap_whitespace)
    have t9: "t = (Q9 @ (g9 @ b @ g) @ k) @ h @ d"
      by (simp add: t8)
    have "substringFrom t (length Q9 + length (g9 @ b @ g) + 2) = h @ d"
      unfolding t9 by (rule substringFrom_at) (simp add: l2)
    then have e5: "trim (extractBetween t (length Q9 + length (g9 @ b @ g) + 2) None) = d"
      using o(3,4) trim_between [of h "[]" d]
      by (simp add: extractBetween_def whitespace_Nil trim_trimmed)
    show ?thesis
      using f7 e4 e5 by (simp add: l9 q onDate_def orNull_def)
  qed
  have "parseScheme n0 k1 km nm k2 t = Some (amount, toUpperCase currency, a, b, onDate oc)"
    by (simp add: parseScheme_def f1 f2 f3 f4 f5 f6 e1 e2 e3)
  then show ?thesis
    by (simp add: t_def Qs)
qed

lemma token_toLowerCase:
  assumes "token (toLowerCase t)"
  shows "token t"
proof -
  have "\<not> isWhiteSpace c" if "c \<in> set t" for c
  proof
    assume ws: "isWhiteSpace c"
    then have "lowerChar c = c" by (rule lowerChar_ws)
    with that ws have "\<exists>x \<in> set (toLowerCase t). isWhiteSpace x"
      by (force simp: toLowerCase_def)
    with assms show False by (auto simp: token_def list_all_iff)
  qed
  moreover have "t \<noteq> []"
    using assms by (auto simp: token_def toLowerCase_def)
  ultimately show ?thesis by (simp add: token_def list_all_iff)
qed

lemma token_spelled: "spelled x k \<Longrightarrow> token (toLowerCase k) \<Longrightarrow> token x"
  by (simp add: spelled_def token_toLowerCase)

lemma indexOfAux_ge: "indexOfAux kw xs k = Some i \<Longrightarrow> k \<le> i"
  by (induction xs arbitrary: k) (auto split: if_splits dest: Suc_leD)

lemma indexOfAux_first:
  "indexOfAux kw xs 0 = Some 0 \<longleftrightarrow> take (length kw) xs = kw"
proof (cases xs)
  case Nil
  then show ?thesis by auto
next
  case (Cons c cs)
  have "indexOfAux kw cs (Suc 0) \<noteq> Some 0"
    using indexOfAux_ge [of kw cs "Suc 0" 0] by auto
  with Cons show ?thesis by simp
qed

lemma starts_with:
  assumes "spelled x k" and "toLowerCase k \<noteq> []"
  shows "findKeywordIndex (x @ rest) k 0 = Some 0"
  using findKeywordIndex_at [of "[]" 0 "toLowerCase k" "[]" x k rest] assms
  by (simp add: spelled_def skippable_Nil toLowerCase_def)

lemma not_starts_with:
  assumes "spelled x k" and "take (length (toLowerCase k')) (toLowerCase k) \<noteq> toLowerCase k'"
    and "length (toLowerCase k') \<le> length (toLowerCase k)"
  shows "findKeywordIndex (x @ rest) k' 0 \<noteq> Some 0"
proof -
  have "take (length (toLowerCase k')) (toLowerCase (x @ rest))
          = take (length (toLowerCase k')) (toLowerCase k)"
    using assms(1,3) by (simp add: toLowerCase_append spelled_def)
  with assms(2) show ?thesis
    by (simp add: findKeywordIndex_def indexOf_def indexOfAux_first)
qed

lemma trimmed_ends:
  assumes "token a" and "d \<noteq> []" and "trimmed d"
  shows "trimmed (a @ m @ d)"
proof -
  from assms have "a \<noteq> []" "\<not> isWhiteSpace (hd a)" "\<not> isWhiteSpace (last d)"
    using hd_in_set [of a] by (auto simp: token_def trimmed_def list_all_iff)
  with assms(2) show ?thesis
    by (simp add: trimmed_def hd_append)
qed

lemma seenClause_ok: "onClause oc \<Longrightarrow> onClause (seenClause oc)"
  by (auto simp: onClause_def seenClause_def whitespace_def trimmed_def split: option.splits)

lemma seenClause_date: "onDate (seenClause oc) = onDate oc"
  by (auto simp: onDate_def seenClause_def split: option.splits)

lemma trim_instruction:
  assumes "whitespace lead" and "whitespace trail" and "token x0" and "token b" and "onClause oc"
  shows "trim (lead @ x0 @ m @ b @ onText oc @ trail) = x0 @ m @ b @ onText (seenClause oc)"
proof (cases oc)
  case None
  have "trim (lead @ (x0 @ m @ b) @ trail) = x0 @ m @ b"
    using assms(1-4) by (intro trim_between trimmed_tokens)
  with None show ?thesis
    by (simp add: onText_def seenClause_def)
next
  case (Some q)
  then obtain g k h d where q: "oc = Some (g, k, h, d)"
    by (cases q) auto
  with assms(5) have o: "gap g" "spelled k ''ON''" "whitespace h" "trimmed d"
    by (simp_all add: onClause_def)
  have "toLowerCase ''ON'' = ''on''"
    by (simp add: toLowerCase_def lowerChar_def upperLetters_def lowerLetters_def)
  moreover have "token ''on''"
    by (simp add: token_def isWhiteSpace_def)
  ultimately have k: "token k"
    using o(2) by (simp add: token_spelled)
  show ?thesis
  proof (cases "d = []")
    case True
    have "whitespace (h @ trail)"
      using o(3) assms(2) by (simp add: whitespace_def)
    then have "trim (lead @ (x0 @ (m @ b @ g) @ k) @ (h @ trail)) = x0 @ (m @ b @ g) @ k"
      using assms(1,3) k by (intro trim_between trimmed_tokens)
    with True show ?thesis
      by (simp add: q onText_def seenClause_def)
  next
    case False
    have "trim (lead @ (x0 @ (m @ b @ g @ k @ h) @ d) @ trail) = x0 @ (m @ b @ g @ k @ h) @ d"
      using assms(1-3) False o(4) by (intro trim_between trimmed_ends)
    with False show ?thesis
      by (simp add: q onText_def seenClause_def)
  qed
qed

lemma keyword_lower:
  "toLowerCase ''DEBIT'' = ''debit''" "toLowerCase ''CREDIT'' = ''credit''"
  "toLowerCase ''FROM'' = ''from''" "toLowerCase ''TO'' = ''to''"
  "toLowerCase ''FOR'' = ''for''" "toLowerCase ''ACCOUNT'' = ''account''"
  "toLowerCase ''ON'' = ''on''"
  by (simp_all add: toLowerCase_def lowerChar_def upperLetters_def lowerLetters_def)

lemma keyword_token:
  "token ''debit''" "token ''credit''" "token ''from''" "token ''to''" "token ''for''"
  "token ''account''" "token ''on''"
  by (simp_all add: token_def isWhiteSpace_def)

lemma keyword_apart:
  "indexOfAux ''account'' ''from'' 0 = None" "indexOfAux ''account'' ''to'' 0 = None"
  "indexOfAux ''credit'' ''for'' 0 = None" "indexOfAux ''debit'' ''for'' 0 = None"
  by simp_all

lemma spelled_length: "spelled x k \<Longrightarrow> length x = length k"
  using length_toLowerCase [of x] length_toLowerCase [of k] by (simp add: spelled_def)

lemma parse_debit_text:
  assumes w: "wordingOf ''DEBIT'' ''FROM'' ''CREDIT'' ''TO'' w"
    and toks: "token amount" "token currency" "token debitId" "token creditId"
    and oc: "onClause oc"
    and free: "lacks amount ''FROM''" "lacks currency ''FROM''" "lacks debitId ''FOR''"
      "lacks creditId ''ON''"
  shows "parseInstruction (instructionText w amount currency debitId creditId oc) =
           Some \<lparr>p_type = DEBIT, p_amount = amount, p_currency = toUpperCase currency,
                 p_debitAccount = debitId, p_creditAccount = creditId,
                 p_executeBy = onDate oc\<rparr>"
proof -
  define t where "t = w_type w @ w_gap1 w @ amount @ w_space w @ currency @ w_gap2 w @ w_dir1 w
       @ w_gap3 w @ w_account1 w @ w_gap4 w @ debitId @ w_gap5 w @ w_for w @ w_gap6 w
       @ w_party w @ w_gap7 w @ w_dir2 w @ w_gap8 w @ w_account2 w @ w_gap9 w @ creditId
       @ onText (seenClause oc)"
  from w have ws: "whitespace (w_lead w)" "whitespace (w_trail w)"
    and sp: "spelled (w_type w) ''DEBIT''" "spelled (w_dir1 w) ''FROM''"
      "spelled (w_account1 w) ''ACCOUNT''" "spelled (w_for w) ''FOR''"
      "spelled (w_party w) ''CREDIT''" "spelled (w_dir2 w) ''TO''"
      "spelled (w_account2 w) ''ACCOUNT''"
    and gaps: "gap (w_gap1 w)" "spaces (w_space w)" "gap (w_gap2 w)" "gap (w_gap3 w)"
      "gap (w_gap4 w)" "gap (w_gap5 w)" "gap (w_gap6 w)" "gap (w_gap7 w)" "gap (w_gap8 w)"
      "gap (w_gap9 w)"
    by (simp_all add: wordingOf_def)
  have ty: "token (w_type w)"
    using sp(1) by (rule token_spelled) (simp add: keyword_lower keyword_token)
  have "trim (w_lead w @ w_type w @
          (w_gap1 w @ amount @ w_space w @ currency @ w_gap2 w @ w_dir1 w
           @ w_gap3 w @ w_account1 w @ w_gap4 w @ debitId @ w_gap5 w @ w_for w @ w_gap6 w
           @ w_party w @ w_gap7 w @ w_dir2 w @ w_gap8 w @ w_account2 w @ w_gap9 w)
          @ creditId @ onText oc @ w_trail w)
        = w_type w @
          (w_gap1 w @ amount @ w_space w @ currency @ w_gap2 w @ w_dir1 w
           @ w_gap3 w @ w_account1 w @ w_gap4 w @ debitId @ w_gap5 w @ w_for w @ w_gap6 w
           @ w_party w @ w_gap7 w @ w_dir2 w @ w_gap8 w @ w_account2 w @ w_gap9 w)
          @ creditId @ onText (seenClause oc)"
    using ws ty toks(4) oc by (rule trim_instruction)
  then have tr: "trim (instructionText w amount currency debitId creditId oc) = t"
    by (simp add: instructionText_def t_def)
  have start: "findKeywordIndex t ''DEBIT'' 0 = Some 0"
    unfolding t_def using sp(1) by (rule starts_with) (simp add: keyword_lower)
  have "parseScheme 5 ''FROM'' ''CREDIT'' 6 ''TO'' t
          = Some (amount, toUpperCase currency, debitId, creditId, onDate (seenClause oc))"
    unfolding t_def
    using sp(2-7) gaps toks free seenClause_ok [OF oc]
      spelled_length [OF sp(1)] spelled_length [OF sp(5)]
    by (intro parseScheme_canonical)
      (simp_all add: keyword_lower keyword_token keyword_apart gap_whitespace)
  then have "parseDebit t =
           Some \<lparr>p_type = DEBIT, p_amount = amount, p_currency = toUpperCase currency,
                 p_debitAccount = debitId, p_creditAccount = creditId,
                 p_executeBy = onDate oc\<rparr>"
    by (simp add: parseDebit_scheme seenClause_date)
  with start show ?thesis
    by (simp add: parseInstruction_def tr)
qed

lemma parse_credit_text:
  assumes w: "wordingOf ''CREDIT'' ''TO'' ''DEBIT'' ''FROM'' w"
    and toks: "token amount" "token currency" "token creditId" "token debitId"
    and oc: "onClause oc"
    and free: "lacks amount ''TO''" "lacks currency ''TO''" "lacks creditId ''FOR''"
      "lacks debitId ''ON''"
  shows "parseInstruction (instructionText w amount currency creditId debitId oc) =
           Some \<lparr>p_type = CREDIT, p_amount = amount, p_currency = toUpperCase currency,
                 p_debitAccount = debitId, p_creditAccount = creditId,
                 p_executeBy = onDate oc\<rparr>"
proof -
  define t where "t = w_type w @ w_gap1 w @ amount @ w_space w @ currency @ w_gap2 w @ w_dir1 w
       @ w_gap3 w @ w_account1 w @ w_gap4 w @ creditId @ w_gap5 w @ w_for w @ w_gap6 w
       @ w_party w @ w_gap7 w @ w_dir2 w @ w_gap8 w @ w_account2 w @ w_gap9 w @ debitId
       @ onText (seenClause oc)"
  from w have ws: "whitespace (w_lead w)" "whitespace (w_trail w)"
    and sp: "spelled (w_type w) ''CREDIT''" "spelled (w_dir1 w) ''TO''"
      "spelled (w_account1 w) ''ACCOUNT''" "spelled (w_for w) ''FOR''"
      "spelled (w_party w) ''DEBIT''" "spelled (w_dir2 w) ''FROM''"
      "spelled (w_account2 w) ''ACCOUNT''"
    and gaps: "gap (w_gap1 w)" "spaces (w_space w)" "gap (w_gap2 w)" "gap (w_gap3 w)"
      "gap (w_gap4 w)" "gap (w_gap5 w)" "gap (w_gap6 w)" "gap (w_gap7 w)" "gap (w_gap8 w)"
      "gap (w_gap9 w)"
    by (simp_all add: wordingOf_def)
  have ty: "token (w_type w)"
    using sp(1) by (rule token_spelled) (simp add: keyword_lower keyword_token)
  have "trim (w_lead w @ w_type w @
          (w_gap1 w @ amount @ w_space w @ currency @ w_gap2 w @ w_dir1 w
           @ w_gap3 w @ w_account1 w @ w_gap4 w @ creditId @ w_gap5 w @ w_for w @ w_gap6 w
           @ w_party w @ w_gap7 w @ w_dir2 w @ w_gap8 w @ w_account2 w @ w_gap9 w)
          @ debitId @ onText oc @ w_trail w)
        = w_type w @
          (w_gap1 w @ amount @ w_space w @ currency @ w_gap2 w @ w_dir1 w
           @ w_gap3 w @ w_account1 w @ w_gap4 w @ creditId @ w_gap5 w @ w_for w @ w_gap6 w
           @ w_party w @ w_gap7 w @ w_dir2 w @ w_gap8 w @ w_account2 w @ w_gap9 w)
          @ debitId @ onText (seenClause oc)"
    using ws ty toks(4) oc by (rule trim_instruction)
  then have tr: "trim (instructionText w amount currency creditId debitId oc) = t"
    by (simp add: instructionText_def t_def)
  have start: "findKeywordIndex t ''CREDIT'' 0 = Some 0"
    unfolding t_def using sp(1) by (rule starts_with) (simp add: keyword_lower)
  have nostart: "findKeywordIndex t ''DEBIT'' 0 \<noteq> Some 0"
    unfolding t_def using sp(1) by (rule not_starts_with) (simp_all add: keyword_lower)
  have "parseScheme 6 ''TO'' ''DEBIT'' 5 ''FROM'' t
          = Some (amount, toUpperCase currency, creditId, debitId, onDate (seenClause oc))"
    unfolding t_def
    using sp(2-7) gaps toks free seenClause_ok [OF oc]
      spelled_length [OF sp(1)] spelled_length [OF sp(5)]
    by (intro parseScheme_canonical)
      (simp_all add: keyword_lower keyword_token keyword_apart gap_whitespace)
  then have "parseCredit t =
           Some \<lparr>p_type = CREDIT, p_amount = amount, p_currency = toUpperCase currency,
                 p_debitAccount = debitId, p_creditAccount = creditId,
                 p_executeBy = onDate oc\<rparr>"
    by (simp add: parseCredit_scheme seenClause_date)
  with start nostart show ?thesis
    by (simp add: parseInstruction_def tr)
qed

subsection \<open>Instructions that lack a keyword\<close>

lemma indexOfAux_drop_None: "indexOfAux kw xs 0 = None \<Longrightarrow> indexOfAux kw (drop p xs) 0 = None"
proof (induction xs arbitrary: p)
  case Nil
  then show ?case by simp
next
  case (Cons c cs)
  show ?case
  proof (cases p)
    case 0
    with Cons.prems show ?thesis by simp
  next
    case (Suc q)
    from Cons.prems have "indexOfAux kw cs (Suc 0) = None"
      by (simp split: if_splits)
    then have "indexOfAux kw cs 0 = None"
      by (subst (asm) indexOfAux_shift) simp
    then have "indexOfAux kw (drop q cs) 0 = None"
      by (rule Cons.IH)
    with Suc show ?thesis by simp
  qed
qed

lemma take_eq_full:
  assumes "take (length kw) xs = kw"
  shows "length kw \<le> length xs"
proof -
  have "length (take (length kw) xs) = length kw"
    by (simp only: assms)
  then show ?thesis by simp
qed

lemma take_prefix: "n \<le> length xs \<Longrightarrow> take n (xs @ ys) = take n xs"
  by simp

lemma indexOfAux_prefix_None:
  assumes "kw \<noteq> []" and "indexOfAux kw (xs @ ys) 0 = None"
  shows "indexOfAux kw xs 0 = None"
  using assms(2)
proof (induction xs)
  case Nil
  show ?case using assms(1) by simp
next
  case (Cons c cs)
  from Cons.prems have no: "take (length kw) (c # cs @ ys) \<noteq> kw"
    and rest: "indexOfAux kw (cs @ ys) (Suc 0) = None"
    by (auto split: if_splits)
  from rest have "indexOfAux kw (cs @ ys) 0 = None"
    by (subst (asm) indexOfAux_shift) simp
  then have "indexOfAux kw cs 0 = None"
    by (rule Cons.IH)
  then have 1: "indexOfAux kw cs (Suc 0) = None"
    by (rule indexOfAux_None_shift)
  have "take (length kw) (c # cs) \<noteq> kw"
  proof
    assume eq: "take (length kw) (c # cs) = kw"
    then have "length kw \<le> length (c # cs)"
      by (rule take_eq_full)
    then have "take (length kw) ((c # cs) @ ys) = take (length kw) (c # cs)"
      by (rule take_prefix)
    with eq no show False by simp
  qed
  with 1 show ?case by simp
qed

lemma found_not_lacks:
  assumes "findKeywordIndex t k start = Some i"
  shows "\<not> lacks t k"
proof
  assume "lacks t k"
  then have "indexOfAux (toLowerCase k) (toLowerCase t) 0 = None"
    by (simp add: lacks_iff)
  then have "indexOfAux (toLowerCase k) (drop (min start (length (toLowerCase t))) (toLowerCase t)) 0
               = None"
    by (rule indexOfAux_drop_None)
  then have "indexOfAux (toLowerCase k) (drop (min start (length (toLowerCase t))) (toLowerCase t))
               (min start (length (toLowerCase t))) = None"
    by (rule indexOfAux_None_shift)
  with assms show False
    by (simp add: findKeywordIndex_def indexOf_def)
qed

lemma trim_parts:
  "\<exists>l r. s = l @ trim s @ r \<and> whitespace l \<and> whitespace r \<and> trimmed (trim s)"
proof -
  define l where "l = takeWhile isWhiteSpace s"
  define u where "u = dropWhile isWhiteSpace s"
  define r where "r = rev (takeWhile isWhiteSpace (rev u))"
  define dw where "dw = dropWhile isWhiteSpace (rev u)"
  have t: "trim s = rev dw"
    by (simp add: trim_def dw_def u_def)
  have "rev u = takeWhile isWhiteSpace (rev u) @ dw"
    by (simp add: dw_def)
  then have "rev (rev u) = rev (takeWhile isWhiteSpace (rev u) @ dw)"
    by (rule arg_cong)
  then have u: "u = rev dw @ r"
    by (simp add: r_def)
  have "s = l @ u"
    by (simp add: l_def u_def)
  with u have s: "s = l @ rev dw @ r"
    by simp
  have wl: "whitespace l"
    by (auto simp: l_def whitespace_def list_all_iff dest: set_takeWhileD)
  have wr: "whitespace r"
    by (auto simp: r_def whitespace_def list_all_iff dest: set_takeWhileD)
  have "trimmed (rev dw)"
  proof (cases "dw = []")
    case True
    then show ?thesis by (simp add: trimmed_def)
  next
    case False
    then have "\<not> isWhiteSpace (hd dw)"
      unfolding dw_def by (rule hd_dropWhile)
    then have la: "\<not> isWhiteSpace (last (rev dw))"
      using False by (simp add: last_rev)
    from False u have "u \<noteq> []" "hd u = hd (rev dw)"
      by simp_all
    moreover have "\<not> isWhiteSpace (hd u)"
      using \<open>u \<noteq> []\<close> unfolding u_def by (rule hd_dropWhile)
    ultimately have "\<not> isWhiteSpace (hd (rev dw))"
      by simp
    with la show ?thesis by (simp add: trimmed_def)
  qed
  with s wl wr t show ?thesis by auto
qed

lemma lacks_trim:
  assumes "toLowerCase k \<noteq> []" and "lacks s k"
  shows "lacks (trim s) k"
proof -
  from trim_parts obtain l r where s: "s = l @ trim s @ r"
    by blast
  have "indexOfAux (toLowerCase k) (toLowerCase s) 0 = None"
    using assms(2) by (simp add: lacks_iff)
  then have "indexOfAux (toLowerCase k) (drop (length l) (toLowerCase s)) 0 = None"
    by (rule indexOfAux_drop_None)
  moreover have "drop (length l) (toLowerCase s) = toLowerCase (trim s) @ toLowerCase r"
    by (subst s) (simp add: toLowerCase_def)
  ultimately have "indexOfAux (toLowerCase k) (toLowerCase (trim s)) 0 = None"
    using assms(1) by (simp add: indexOfAux_prefix_None)
  then show ?thesis by (simp add: lacks_iff)
qed

lemma parseScheme_keywords:
  assumes "parseScheme n0 k1 km nm k2 t = Some r"
  shows "\<not> lacks t k1 \<and> \<not> lacks t ''ACCOUNT'' \<and> \<not> lacks t ''FOR'' \<and> \<not> lacks t km
           \<and> \<not> lacks t k2"
proof -
  from assms obtain i1 where f1: "findKeywordIndex t k1 n0 = Some i1"
    by (auto simp: parseScheme_def split: option.splits)
  from assms f1 obtain a1 where f2: "findKeywordIndex t ''ACCOUNT'' i1 = Some a1"
    by (auto simp: parseScheme_def Let_def split: option.splits if_splits)
  from assms f1 f2 obtain fi where f3: "findKeywordIndex t ''FOR'' (a1 + 7) = Some fi"
    by (auto simp: parseScheme_def Let_def split: option.splits if_splits)
  from assms f1 f2 f3 obtain im where f4: "findKeywordIndex t km fi = Some im"
    by (auto simp: parseScheme_def Let_def split: option.splits if_splits)
  from assms f1 f2 f3 f4 obtain i2 where f5: "findKeywordIndex t k2 (im + nm) = Some i2"
    by (auto simp: parseScheme_def Let_def split: option.splits if_splits)
  from f1 f2 f3 f4 f5 show ?thesis
    by (blast dest: found_not_lacks)
qed

lemma parse_incomplete:
  assumes "(findKeywordIndex (trim s) ''DEBIT'' 0 \<noteq> Some 0 \<and>
            findKeywordIndex (trim s) ''CREDIT'' 0 \<noteq> Some 0) \<or>
           lacks s ''DEBIT'' \<or> lacks s ''CREDIT'' \<or> lacks s ''FROM'' \<or> lacks s ''TO'' \<or>
           lacks s ''FOR'' \<or> lacks s ''ACCOUNT''"
  shows "parseInstruction s = None"
proof (rule ccontr)
  assume "parseInstruction s \<noteq> None"
  then obtain p where p: "parseInstruction s = Some p"
    by auto
  define t where "t = trim s"
  have tl: "lacks s k \<Longrightarrow> lacks t k" if "toLowerCase k \<noteq> []" for k
    unfolding t_def using that by (rule lacks_trim)
  have ne: "toLowerCase ''DEBIT'' \<noteq> []" "toLowerCase ''CREDIT'' \<noteq> []"
    "toLowerCase ''FROM'' \<noteq> []" "toLowerCase ''TO'' \<noteq> []" "toLowerCase ''FOR'' \<noteq> []"
    "toLowerCase ''ACCOUNT'' \<noteq> []"
    by (simp_all add: keyword_lower)
  consider (debit) "findKeywordIndex t ''DEBIT'' 0 = Some 0" "parseDebit t = Some p"
    | (credit) "findKeywordIndex t ''CREDIT'' 0 = Some 0" "parseCredit t = Some p"
    using p by (auto simp: parseInstruction_def t_def Let_def split: if_splits)
  then have "\<not> lacks t ''DEBIT'' \<and> \<not> lacks t ''CREDIT'' \<and> \<not> lacks t ''FROM'' \<and>
      \<not> lacks t ''TO'' \<and> \<not> lacks t ''FOR'' \<and> \<not> lacks t ''ACCOUNT'' \<and>
      (findKeywordIndex t ''DEBIT'' 0 = Some 0 \<or> findKeywordIndex t ''CREDIT'' 0 = Some 0)"
  proof cases
    case debit
    from debit(2) obtain r where "parseScheme 5 ''FROM'' ''CREDIT'' 6 ''TO'' t = Some r"
      by (auto simp: parseDebit_scheme)
    then show ?thesis
      using debit(1) by (auto dest!: parseScheme_keywords found_not_lacks)
  next
    case credit
    from credit(2) obtain r where "parseScheme 6 ''TO'' ''DEBIT'' 5 ''FROM'' t = Some r"
      by (auto simp: parseCredit_scheme)
    then show ?thesis
      using credit(1) by (auto dest!: parseScheme_keywords found_not_lacks)
  qed
  with assms tl ne show False
    unfolding t_def by blast
qed

subsection \<open>Text appended to an instruction\<close>

lemma indexOfAux_bound:
  "kw \<noteq> [] \<Longrightarrow> indexOfAux kw xs k = Some i \<Longrightarrow> i + length kw \<le> k + length xs"
proof (induction xs arbitrary: k)
  case Nil
  then show ?case by simp
next
  case (Cons c cs)
  show ?case
  proof (cases "take (length kw) (c # cs) = kw")
    case True
    then have "length kw \<le> length (c # cs)"
      by (rule take_eq_full)
    with True Cons.prems show ?thesis by simp
  next
    case False
    with Cons.prems have "indexOfAux kw cs (Suc k) = Some i"
      by simp
    with Cons.prems(1) have "i + length kw \<le> Suc k + length cs"
      by (rule Cons.IH)
    then show ?thesis by simp
  qed
qed

lemma indexOfAux_append:
  assumes "kw \<noteq> []" and "indexOfAux kw xs k = Some i"
  shows "indexOfAux kw (xs @ ys) k = Some i"
  using assms(2)
proof (induction xs arbitrary: k)
  case Nil
  with assms(1) show ?case by simp
next
  case (Cons c cs)
  show ?case
  proof (cases "take (length kw) (c # cs) = kw")
    case True
    then have "length kw \<le> length (c # cs)"
      by (rule take_eq_full)
    then have "take (length kw) ((c # cs) @ ys) = take (length kw) (c # cs)"
      by (rule take_prefix)
    with True Cons.prems show ?thesis by simp
  next
    case False
    with Cons.prems have nx: "indexOfAux kw cs (Suc k) = Some i"
      by simp
    then have ih: "indexOfAux kw (cs @ ys) (Suc k) = Some i"
      by (rule Cons.IH)
    have "Suc k \<le> i"
      using nx by (rule indexOfAux_ge)
    moreover have "i + length kw \<le> Suc k + length cs"
      using assms(1) nx by (rule indexOfAux_bound)
    ultimately have "length kw \<le> length (c # cs)"
      by simp
    then have "take (length kw) ((c # cs) @ ys) = take (length kw) (c # cs)"
      by (rule take_prefix)
    with False ih show ?thesis by simp
  qed
qed

lemma findKeywordIndex_bound:
  assumes "toLowerCase k \<noteq> []" and "findKeywordIndex t k start = Some i"
  shows "start \<le> i \<and> i + length k \<le> length t"
proof -
  define p where "p = min start (length (toLowerCase t))"
  have f: "indexOfAux (toLowerCase k) (drop p (toLowerCase t)) p = Some i"
    using assms(2) by (simp add: findKeywordIndex_def indexOf_def p_def Let_def)
  have "drop p (toLowerCase t) \<noteq> []"
    using f assms(1) by auto
  then have "p = start"
    by (simp add: p_def)
  moreover have "p \<le> i"
    using f by (rule indexOfAux_ge)
  moreover have "i + length (toLowerCase k) \<le> p + length (drop p (toLowerCase t))"
    using assms(1) f by (rule indexOfAux_bound)
  ultimately show ?thesis
    by (simp add: length_toLowerCase p_def)
qed

lemma findKeywordIndex_append:
  assumes "toLowerCase k \<noteq> []" and "findKeywordIndex t k start = Some i"
  shows "findKeywordIndex (t @ y) k start = Some i"
proof -
  from assms have "start \<le> i" "i + length k \<le> length t"
    by (simp_all add: findKeywordIndex_bound)
  then have st: "start \<le> length t"
    by simp
  then have "indexOfAux (toLowerCase k) (drop start (toLowerCase t)) start = Some i"
    using assms(2)
    by (simp add: findKeywordIndex_def indexOf_def length_toLowerCase min_def Let_def)
  with assms(1)
  have "indexOfAux (toLowerCase k) (drop start (toLowerCase t) @ toLowerCase y) start = Some i"
    by (rule indexOfAux_append)
  with st show ?thesis
    by (simp add: findKeywordIndex_def indexOf_def length_toLowerCase toLowerCase_append min_def
        Let_def)
qed

lemma lacks_from: "lacks t k \<Longrightarrow> findKeywordIndex t k start = None"
  using found_not_lacks [of t k start] by (cases "findKeywordIndex t k start") auto

lemma substring_append:
  "a \<le> length t \<Longrightarrow> b \<le> length t \<Longrightarrow> substring (t @ y) a b = substring t a b"
  by (simp add: substring_def min_def max_def)

lemma extractBetween_append:
  "a \<le> length t \<Longrightarrow> b \<le> length t \<Longrightarrow>
   extractBetween (t @ y) a (Some b) = extractBetween t a (Some b)"
  by (simp add: extractBetween_def substring_append)

lemma trim_Nil: "trim [] = []"
  by (simp add: trim_def)

lemma trim_append_ws:
  assumes "whitespace g"
  shows "trim (y @ g) = trim y"
proof -
  from trim_parts obtain l r where y: "y = l @ trim y @ r"
    and ws: "whitespace l" "whitespace r" and tr: "trimmed (trim y)"
    by blast
  have wg: "whitespace (r @ g)"
    using ws(2) assms by (simp add: whitespace_def)
  have "y @ g = l @ trim y @ (r @ g)"
    by (subst y) simp
  then have "trim (y @ g) = trim (l @ trim y @ (r @ g))"
    by (rule arg_cong)
  also have "\<dots> = trim y"
    using ws(1) wg tr by (rule trim_between)
  finally show ?thesis .
qed

lemma append_split: "take p t @ (drop p t @ g) @ k = t @ g @ k"
  by (metis append_assoc append_take_drop_id)

lemma indexOfAux_found:
  "indexOfAux kw xs k = Some i \<Longrightarrow> take (length kw) (drop (i - k) xs) = kw"
proof (induction xs arbitrary: k)
  case Nil
  then show ?case by (simp split: if_splits)
next
  case (Cons c cs)
  show ?case
  proof (cases "take (length kw) (c # cs) = kw")
    case True
    with Cons.prems have "i = k" by simp
    with True show ?thesis by simp
  next
    case False
    with Cons.prems have nx: "indexOfAux kw cs (Suc k) = Some i"
      by simp
    then have "take (length kw) (drop (i - Suc k) cs) = kw"
      by (rule Cons.IH)
    moreover have "Suc k \<le> i"
      using nx by (rule indexOfAux_ge)
    then have "i - k = Suc (i - Suc k)"
      by simp
    ultimately show ?thesis by simp
  qed
qed

lemma findKeywordIndex_found:
  assumes "toLowerCase k \<noteq> []" and "findKeywordIndex t k start = Some i"
  shows "take (length k) (drop i (toLowerCase t)) = toLowerCase k"
proof -
  from assms have b: "start \<le> i" "i + length k \<le> length t"
    by (simp_all add: findKeywordIndex_bound)
  then have "indexOfAux (toLowerCase k) (drop start (toLowerCase t)) start = Some i"
    using assms(2)
    by (simp add: findKeywordIndex_def indexOf_def length_toLowerCase min_def Let_def)
  then have "take (length (toLowerCase k)) (drop (i - start) (drop start (toLowerCase t)))
               = toLowerCase k"
    by (rule indexOfAux_found)
  with b(1) show ?thesis
    by (simp add: length_toLowerCase)
qed

lemma trimmed_whitespace: "trimmed t \<Longrightarrow> whitespace t \<Longrightarrow> t = []"
  by (cases t) (auto simp: trimmed_def whitespace_def)

lemma trim_empty:
  assumes "trim x = []"
  shows "whitespace x"
proof -
  from trim_parts obtain l r where "x = l @ trim x @ r" and "whitespace l" "whitespace r"
    by blast
  with assms have "x = l @ r" by simp
  with \<open>whitespace l\<close> \<open>whitespace r\<close> show ?thesis
    by (simp add: whitespace_def)
qed

lemma trim_trim_empty:
  assumes "trim (trim x) = []"
  shows "whitespace x"
proof -
  from trim_parts obtain l r where "trimmed (trim x)"
    by blast
  moreover from assms have "whitespace (trim x)"
    by (rule trim_empty)
  ultimately have "trim x = []"
    by (rule trimmed_whitespace)
  then show ?thesis
    by (rule trim_empty)
qed

lemma no_date_ends:
  assumes tr: "trimmed t" and found: "findKeywordIndex t ''ON'' start = Some oi"
    and nodate: "trim (extractBetween t (oi + 2) None) = []"
  shows "oi + 2 = length t \<and> endsWith t ''ON''"
proof -
  have ne: "toLowerCase ''ON'' \<noteq> []"
    by (simp add: keyword_lower)
  from findKeywordIndex_bound [OF ne found] have b: "oi + 2 \<le> length t"
    by simp
  from nodate have "whitespace (drop (oi + 2) t)"
    by (intro trim_trim_empty) (simp add: extractBetween_def substringFrom_def)
  have rest: "drop (oi + 2) t = []"
  proof (rule ccontr)
    assume nonempty: "drop (oi + 2) t \<noteq> []"
    then have "last (drop (oi + 2) t) = last t"
      by simp
    moreover have "isWhiteSpace (last (drop (oi + 2) t))"
      using \<open>whitespace (drop (oi + 2) t)\<close> nonempty last_in_set [of "drop (oi + 2) t"]
      by (auto simp: whitespace_def list_all_iff)
    moreover have "t \<noteq> []"
      using nonempty by auto
    ultimately show False
      using tr by (simp add: trimmed_def)
  qed
  with b have len: "oi + 2 = length t"
    by simp
  have "take (length ''ON'') (drop oi (toLowerCase t)) = toLowerCase ''ON''"
    using ne found by (rule findKeywordIndex_found)
  moreover have "length (drop oi (toLowerCase t)) = 2"
    using len by (simp add: length_toLowerCase)
  ultimately have "drop oi (toLowerCase t) = toLowerCase ''ON''"
    by simp
  then have "toLowerCase (drop oi t) = toLowerCase ''ON''"
    by (simp add: toLowerCase_def drop_map)
  moreover have "oi = length t - length ''ON''"
    using len by simp
  ultimately show ?thesis
    using len by (simp add: endsWith_def spelled_def)
qed

lemma ends_found:
  assumes "endsWith t ''ON''" and "start + 2 \<le> length t"
  shows "\<exists>oi. findKeywordIndex t ''ON'' start = Some oi"
proof (cases "findKeywordIndex t ''ON'' start")
  case None
  define n where "n = length t - 2"
  have "length ''ON'' = 2"
    by simp
  with assms(1) have "spelled (drop n t) ''ON''"
    unfolding endsWith_def n_def by (simp only:)
  then have "toLowerCase (drop n t) = ''on''"
    by (simp add: spelled_def keyword_lower)
  then have sp: "drop n (toLowerCase t) = ''on''"
    by (simp add: toLowerCase_def drop_map)
  have sn: "n - start + start = n"
    using assms(2) by (simp add: n_def)
  from None have "indexOfAux ''on'' (drop start (toLowerCase t)) start = None"
    using assms(2)
    by (simp add: findKeywordIndex_def indexOf_def keyword_lower length_toLowerCase min_def
        Let_def)
  then have "indexOfAux ''on'' (drop start (toLowerCase t)) 0 = None"
    by (subst (asm) indexOfAux_shift) simp
  then have "indexOfAux ''on'' (drop (n - start) (drop start (toLowerCase t))) 0 = None"
    by (rule indexOfAux_drop_None)
  then have "indexOfAux ''on'' (drop n (toLowerCase t)) 0 = None"
    by (simp only: drop_drop sn)
  with sp show ?thesis by simp
next
  case (Some oi)
  then show ?thesis by simp
qed

lemma account_before_on:
  assumes acc: "take 7 (drop a u) = ''account''" and on: "drop (length u - 2) u = ''on''"
    and le: "a + 7 \<le> length u"
  shows "a + 9 \<le> length u"
proof (rule ccontr)
  assume "\<not> a + 9 \<le> length u"
  with le consider "length u = a + 7" | "length u = a + 8"
    by linarith
  then show False
  proof cases
    case 1
    from acc have "take 7 (drop a u) ! 6 = CHR ''t''"
      by simp
    then have t: "u ! (a + 6) = CHR ''t''"
      using 1 by simp
    from on have "drop (length u - 2) u ! 1 = CHR ''n''"
      by simp
    then have "u ! (a + 6) = CHR ''n''"
      using 1 by (simp add: eval_nat_numeral)
    with t show False by simp
  next
    case 2
    from acc have "take 7 (drop a u) ! 6 = CHR ''t''"
      by simp
    then have t: "u ! (a + 6) = CHR ''t''"
      using 2 by simp
    from on have "drop (length u - 2) u ! 0 = CHR ''o''"
      by simp
    then have "u ! (a + 6) = CHR ''o''"
      using 2 by (simp add: eval_nat_numeral)
    with t show False by simp
  qed
qed

lemma find_on_appended:
  assumes "findKeywordIndex t ''ON'' p = None" and "gap g" and "spelled k ''ON''"
    and "p \<le> length t"
  shows "findKeywordIndex (t @ g @ k) ''ON'' p = Some (length t + length g)"
proof -
  have "indexOfAux ''on'' (drop p (toLowerCase t)) p = None"
    using assms(1,4)
    by (simp add: findKeywordIndex_def indexOf_def keyword_lower length_toLowerCase min_def
        Let_def)
  then have "indexOfAux ''on'' (drop p (toLowerCase t)) 0 = None"
    by (subst (asm) indexOfAux_shift) simp
  then have "indexOfAux ''on'' (toLowerCase (drop p t)) 0 = None"
    by (simp add: toLowerCase_def drop_map)
  with keyword_token(7) have "skippable ''on'' (toLowerCase (drop p t) @ g)"
    using assms(2) by (rule skippable_token)
  then have "skippable ''on'' (toLowerCase (drop p t @ g))"
    using assms(2) by (simp add: toLowerCase_append toLowerCase_ws gap_whitespace)
  then have found: "findKeywordIndex (take p t @ (drop p t @ g) @ k @ []) ''ON'' p
               = Some (p + length (drop p t @ g))"
    using assms(3,4)
    by (intro findKeywordIndex_at [where kw = "''on''"]) (simp_all add: spelled_def keyword_lower)
  have "(take p t @ drop p t) @ g @ k = t @ g @ k"
    by (simp only: append_take_drop_id)
  then have eq: "take p t @ (drop p t @ g) @ k @ [] = t @ g @ k"
    by (simp only: append_assoc append_Nil2)
  have len: "p + length (drop p t @ g) = length t + length g"
    using assms(4) by simp
  show ?thesis
    using found unfolding eq len .
qed

text \<open>
  The parsed chain of keywords up to the second \<open>ACCOUNT\<close>, which the text appended to
  an instruction does not change.
\<close>

lemma parseScheme_chain:
  assumes "parseScheme n0 k1 km nm k2 t = Some r"
  obtains i1 a1 fi im i2 a2 where
    "findKeywordIndex t k1 n0 = Some i1"
    "\<not> length (amountCurrencyTokens (extractBetween t n0 (Some i1))) < 2"
    "findKeywordIndex t ''ACCOUNT'' i1 = Some a1"
    "findKeywordIndex t ''FOR'' (a1 + 7) = Some fi"
    "findKeywordIndex t km fi = Some im"
    "findKeywordIndex t k2 (im + nm) = Some i2"
    "findKeywordIndex t ''ACCOUNT'' i2 = Some a2"
    "r = (amountCurrencyTokens (extractBetween t n0 (Some i1)) ! 0,
          toUpperCase (amountCurrencyTokens (extractBetween t n0 (Some i1)) ! 1),
          trim (extractBetween t (a1 + 7) (Some fi)),
          (case findKeywordIndex t ''ON'' (a2 + 7) of
             Some oi \<Rightarrow>
               (trim (extractBetween t (a2 + 7) (Some oi)),
                orNull (Some (trim (extractBetween t (oi + 2) None))))
           | None \<Rightarrow> (trim (extractBetween t (a2 + 7) None), None)))"
proof -
  from assms obtain i1 where f1: "findKeywordIndex t k1 n0 = Some i1"
    by (auto simp: parseScheme_def split: option.splits)
  define tokens where "tokens = amountCurrencyTokens (extractBetween t n0 (Some i1))"
  from assms f1 have two: "\<not> length tokens < 2"
    by (auto simp: parseScheme_def Let_def tokens_def split: option.splits if_splits)
  from assms f1 obtain a1 where f2: "findKeywordIndex t ''ACCOUNT'' i1 = Some a1"
    by (auto simp: parseScheme_def Let_def split: option.splits if_splits)
  from assms f1 f2 obtain fi where f3: "findKeywordIndex t ''FOR'' (a1 + 7) = Some fi"
    by (auto simp: parseScheme_def Let_def split: option.splits if_splits)
  from assms f1 f2 f3 obtain im where f4: "findKeywordIndex t km fi = Some im"
    by (auto simp: parseScheme_def Let_def split: option.splits if_splits)
  from assms f1 f2 f3 f4 obtain i2 where f5: "findKeywordIndex t k2 (im + nm) = Some i2"
    by (auto simp: parseScheme_def Let_def split: option.splits if_splits)
  from assms f1 f2 f3 f4 f5 obtain a2 where f6: "findKeywordIndex t ''ACCOUNT'' i2 = Some a2"
    by (auto simp: parseScheme_def Let_def split: option.splits if_splits)
  have "r = (tokens ! 0, toUpperCase (tokens ! 1),
          trim (extractBetween t (a1 + 7) (Some fi)),
          (case findKeywordIndex t ''ON'' (a2 + 7) of
             Some oi \<Rightarrow>
               (trim (extractBetween t (a2 + 7) (Some oi)),
                orNull (Some (trim (extractBetween t (oi + 2) None))))
           | None \<Rightarrow> (trim (extractBetween t (a2 + 7) None), None)))"
    using assms two by (simp add: parseScheme_def f1 f2 f3 f4 f5 f6 tokens_def [symmetric])
  with f1 two f2 f3 f4 f5 f6 show ?thesis
    unfolding tokens_def by (rule that)
qed

lemma parseScheme_on_appended:
  assumes ne: "toLowerCase k1 \<noteq> []" "toLowerCase km \<noteq> []" "toLowerCase k2 \<noteq> []"
    and parsed: "parseScheme n0 k1 km nm k2 t = Some (a, c, x, y, None)"
    and tr: "trimmed t" and g: "gap g" and k: "spelled k ''ON''"
  shows "parseScheme n0 k1 km nm k2 (t @ g @ k) =
           Some (a, c, x, y, if endsWith t ''ON'' then Some k else None)"
proof -
  from parsed obtain i1 a1 fi im i2 a2 where
    f1: "findKeywordIndex t k1 n0 = Some i1"
    and two: "\<not> length (amountCurrencyTokens (extractBetween t n0 (Some i1))) < 2"
    and f2: "findKeywordIndex t ''ACCOUNT'' i1 = Some a1"
    and f3: "findKeywordIndex t ''FOR'' (a1 + 7) = Some fi"
    and f4: "findKeywordIndex t km fi = Some im"
    and f5: "findKeywordIndex t k2 (im + nm) = Some i2"
    and f6: "findKeywordIndex t ''ACCOUNT'' i2 = Some a2"
    and r: "(a, c, x, y, None) =
         (amountCurrencyTokens (extractBetween t n0 (Some i1)) ! 0,
          toUpperCase (amountCurrencyTokens (extractBetween t n0 (Some i1)) ! 1),
          trim (extractBetween t (a1 + 7) (Some fi)),
          (case findKeywordIndex t ''ON'' (a2 + 7) of
             Some oi \<Rightarrow>
               (trim (extractBetween t (a2 + 7) (Some oi)),
                orNull (Some (trim (extractBetween t (oi + 2) None))))
           | None \<Rightarrow> (trim (extractBetween t (a2 + 7) None), None)))"
    by (rule parseScheme_chain)
  have kn: "toLowerCase ''ACCOUNT'' \<noteq> []" "toLowerCase ''FOR'' \<noteq> []" "toLowerCase ''ON'' \<noteq> []"
    by (simp_all add: keyword_lower)
  have b1: "n0 \<le> i1" "i1 \<le> length t"
    using findKeywordIndex_bound [OF ne(1) f1] by simp_all
  have b2: "a1 + 7 \<le> length t"
    using findKeywordIndex_bound [OF kn(1) f2] by simp
  have b3: "a1 + 7 \<le> fi" "fi \<le> length t"
    using findKeywordIndex_bound [OF kn(2) f3] by simp_all
  have b6: "a2 + 7 \<le> length t"
    using findKeywordIndex_bound [OF kn(1) f6] by simp
  let ?t = "t @ g @ k"
  have g1: "findKeywordIndex ?t k1 n0 = Some i1"
    using ne(1) f1 by (rule findKeywordIndex_append)
  have g2: "findKeywordIndex ?t ''ACCOUNT'' i1 = Some a1"
    using kn(1) f2 by (rule findKeywordIndex_append)
  have g3: "findKeywordIndex ?t ''FOR'' (a1 + 7) = Some fi"
    using kn(2) f3 by (rule findKeywordIndex_append)
  have g4: "findKeywordIndex ?t km fi = Some im"
    using ne(2) f4 by (rule findKeywordIndex_append)
  have g5: "findKeywordIndex ?t k2 (im + nm) = Some i2"
    using ne(3) f5 by (rule findKeywordIndex_append)
  have g6: "findKeywordIndex ?t ''ACCOUNT'' i2 = Some a2"
    using kn(1) f6 by (rule findKeywordIndex_append)
  have e1: "extractBetween ?t n0 (Some i1) = extractBetween t n0 (Some i1)"
    using b1 by (intro extractBetween_append) simp_all
  have e2: "extractBetween ?t (a1 + 7) (Some fi) = extractBetween t (a1 + 7) (Some fi)"
    using b2 b3 by (intro extractBetween_append) simp_all
  have l2: "length k = 2"
    using spelled_length [OF k] by simp
  have tk: "token k"
    using k by (rule token_spelled) (simp add: keyword_lower keyword_token)
  show ?thesis
  proof (cases "findKeywordIndex t ''ON'' (a2 + 7)")
    case None
    have "\<not> endsWith t ''ON''"
    proof
      assume e: "endsWith t ''ON''"
      have "take (length ''ACCOUNT'') (drop a2 (toLowerCase t)) = ''account''"
        using findKeywordIndex_found [OF kn(1) f6] by (simp only: keyword_lower)
      then have acc: "take 7 (drop a2 (toLowerCase t)) = ''account''"
        by (simp add: eval_nat_numeral)
      have "length ''ON'' = 2"
        by simp
      with e have "spelled (drop (length t - 2) t) ''ON''"
        unfolding endsWith_def by (simp only:)
      then have "toLowerCase (drop (length t - 2) t) = ''on''"
        by (simp add: spelled_def keyword_lower)
      then have on: "drop (length (toLowerCase t) - 2) (toLowerCase t) = ''on''"
        by (simp add: toLowerCase_def drop_map)
      have "a2 + 9 \<le> length (toLowerCase t)"
        using acc on b6 by (intro account_before_on) (simp_all add: length_toLowerCase)
      then have "a2 + 7 + 2 \<le> length t"
        by (simp add: length_toLowerCase)
      then obtain oi where "findKeywordIndex t ''ON'' (a2 + 7) = Some oi"
        using e ends_found by blast
      with None show False by simp
    qed
    moreover have r': "(a, c, x, y, None) =
         (amountCurrencyTokens (extractBetween t n0 (Some i1)) ! 0,
          toUpperCase (amountCurrencyTokens (extractBetween t n0 (Some i1)) ! 1),
          trim (extractBetween t (a1 + 7) (Some fi)),
          trim (extractBetween t (a2 + 7) None), None)"
      using r None by simp
    have g7: "findKeywordIndex ?t ''ON'' (a2 + 7) = Some (length t + length g)"
      using None g k b6 by (rule find_on_appended)
    have "substring (take (a2 + 7) t @ (drop (a2 + 7) t @ g) @ k) (a2 + 7) (length t + length g)
            = drop (a2 + 7) t @ g"
      by (rule substring_at) (use b6 in simp_all)
    then have "substring ?t (a2 + 7) (length t + length g) = drop (a2 + 7) t @ g"
      unfolding append_split .
    then have e3: "extractBetween ?t (a2 + 7) (Some (length t + length g))
                     = extractBetween t (a2 + 7) None"
      using g by (simp add: extractBetween_def substringFrom_def trim_append_ws gap_whitespace)
    have "substringFrom ?t (Suc (Suc (length t + length g))) = []"
      by (simp add: substringFrom_def l2)
    then have e4: "extractBetween ?t (Suc (Suc (length t + length g))) None = []"
      by (simp add: extractBetween_def trim_Nil)
    have "parseScheme n0 k1 km nm k2 ?t = Some (a, c, x, y, None)"
      using two
      by (simp add: parseScheme_def Let_def g1 g2 g3 g4 g5 g6 g7 e1 e2 e3 e4 r' trim_Nil
          orNull_def)
    ultimately show ?thesis by simp
  next
    case (Some oi)
    with r have y: "y = trim (extractBetween t (a2 + 7) (Some oi))"
      and nd: "orNull (Some (trim (extractBetween t (oi + 2) None))) = None"
      and r': "a = amountCurrencyTokens (extractBetween t n0 (Some i1)) ! 0"
        "c = toUpperCase (amountCurrencyTokens (extractBetween t n0 (Some i1)) ! 1)"
        "x = trim (extractBetween t (a1 + 7) (Some fi))"
      by simp_all
    from nd have "trim (extractBetween t (oi + 2) None) = []"
      by (simp add: orNull_def split: if_splits)
    with tr Some have len: "oi + 2 = length t" and e: "endsWith t ''ON''"
      using no_date_ends by blast+
    have bo: "a2 + 7 \<le> oi"
      using findKeywordIndex_bound [OF kn(3) Some] by simp
    have g7: "findKeywordIndex ?t ''ON'' (a2 + 7) = Some oi"
      using kn(3) Some by (rule findKeywordIndex_append)
    have e3: "extractBetween ?t (a2 + 7) (Some oi) = extractBetween t (a2 + 7) (Some oi)"
      using b6 len by (intro extractBetween_append) simp_all
    have "substringFrom ?t (oi + 2) = g @ k"
      using len by (simp add: substringFrom_def)
    moreover have "trim ([] @ (g @ k) @ []) = trim (g @ k @ [])"
      by simp
    moreover have "trim (g @ k @ []) = k"
      using g tk by (intro trim_between) (simp_all add: gap_whitespace whitespace_Nil token_trimmed)
    ultimately have "trim (extractBetween ?t (oi + 2) None) = k"
      using tk by (simp add: extractBetween_def trim_trimmed token_trimmed)
    then have e4: "trim (extractBetween ?t (Suc (Suc oi)) None) = k"
      by simp
    have kne: "k \<noteq> []"
      using l2 by auto
    have "parseScheme n0 k1 km nm k2 ?t = Some (a, c, x, y, Some k)"
      using two kne
      by (simp add: parseScheme_def Let_def g1 g2 g3 g4 g5 g6 g7 e1 e2 e3 e4 r' y orNull_def)
    with e show ?thesis by simp
  qed
qed

lemma starts_iff:
  "findKeywordIndex t k 0 = Some 0 \<longleftrightarrow>
     take (length (toLowerCase k)) (toLowerCase t) = toLowerCase k"
  by (simp add: findKeywordIndex_def indexOf_def indexOfAux_first)

lemma trimmed_to_token:
  assumes "a \<noteq> []" and "trimmed a" and "token k"
  shows "trimmed (a @ m @ k)"
proof -
  from assms have "\<not> isWhiteSpace (hd a)" "k \<noteq> []" "\<not> isWhiteSpace (last k)"
    using last_in_set [of k] by (auto simp: token_def trimmed_def list_all_iff)
  with assms(1) show ?thesis
    by (simp add: trimmed_def hd_append)
qed

lemma parseInstruction_on_appended:
  assumes parsed: "parseInstruction s = Some p" and nodate: "p_executeBy p = None"
    and g: "gap g" and k: "spelled k ''ON''" and w: "whitespace w"
  shows "parseInstruction (s @ g @ k @ w) =
           Some (p\<lparr>p_executeBy := if endsWith (trim s) ''ON'' then Some k else None\<rparr>)"
proof -
  define t where "t = trim s"
  from trim_parts obtain l r where s: "s = l @ t @ r"
    and ws: "whitespace l" "whitespace r" and tr: "trimmed t"
    unfolding t_def by blast
  have ne: "toLowerCase ''DEBIT'' \<noteq> []" "toLowerCase ''CREDIT'' \<noteq> []"
    "toLowerCase ''FROM'' \<noteq> []" "toLowerCase ''TO'' \<noteq> []" "toLowerCase ''ON'' \<noteq> []"
    by (simp_all add: keyword_lower)
  have tk: "token k"
    using k by (rule token_spelled) (simp add: keyword_lower keyword_token)
  have gr: "gap (r @ g)"
    using ws(2) g by (auto simp: gap_def whitespace_def)
  consider (debit) "findKeywordIndex t ''DEBIT'' 0 = Some 0" "parseDebit t = Some p"
    | (credit) "findKeywordIndex t ''DEBIT'' 0 \<noteq> Some 0"
        "findKeywordIndex t ''CREDIT'' 0 = Some 0" "parseCredit t = Some p"
    using parsed by (auto simp: parseInstruction_def t_def Let_def split: if_splits)
  then have nonempty: "t \<noteq> []"
  proof cases
    case debit
    from findKeywordIndex_bound [OF ne(1) debit(1)] show ?thesis by auto
  next
    case credit
    from findKeywordIndex_bound [OF ne(2) credit(2)] show ?thesis by auto
  qed
  have "s @ g @ k @ w = l @ (t @ (r @ g) @ k) @ w"
    by (subst s) simp
  then have "trim (s @ g @ k @ w) = trim (l @ (t @ (r @ g) @ k) @ w)"
    by (rule arg_cong)
  also have "\<dots> = t @ (r @ g) @ k"
    using ws(1) w nonempty tr tk by (intro trim_between trimmed_to_token)
  finally have trim': "trim (s @ g @ k @ w) = t @ (r @ g) @ k" .
  consider (debit) "findKeywordIndex t ''DEBIT'' 0 = Some 0" "parseDebit t = Some p"
    | (credit) "findKeywordIndex t ''DEBIT'' 0 \<noteq> Some 0"
        "findKeywordIndex t ''CREDIT'' 0 = Some 0" "parseCredit t = Some p"
    using parsed by (auto simp: parseInstruction_def t_def Let_def split: if_splits)
  then show ?thesis
  proof cases
    case debit
    from debit(2) nodate obtain a c x y
      where q: "parseScheme 5 ''FROM'' ''CREDIT'' 6 ''TO'' t = Some (a, c, x, y, None)"
      and p: "p = \<lparr>p_type = DEBIT, p_amount = a, p_currency = c, p_debitAccount = x,
                   p_creditAccount = y, p_executeBy = None\<rparr>"
      by (auto simp: parseDebit_scheme)
    have "parseScheme 5 ''FROM'' ''CREDIT'' 6 ''TO'' (t @ (r @ g) @ k) =
            Some (a, c, x, y, if endsWith t ''ON'' then Some k else None)"
      using ne(3,2,4) q tr gr k by (rule parseScheme_on_appended)
    then have "parseDebit (t @ (r @ g) @ k) =
            Some (p\<lparr>p_executeBy := if endsWith t ''ON'' then Some k else None\<rparr>)"
      by (simp add: parseDebit_scheme p)
    moreover have "findKeywordIndex (t @ (r @ g) @ k) ''DEBIT'' 0 = Some 0"
      using ne(1) debit(1) by (rule findKeywordIndex_append)
    ultimately show ?thesis
      by (simp add: parseInstruction_def trim' t_def [symmetric])
  next
    case credit
    from credit(3) nodate obtain a c x y
      where q: "parseScheme 6 ''TO'' ''DEBIT'' 5 ''FROM'' t = Some (a, c, x, y, None)"
      and p: "p = \<lparr>p_type = CREDIT, p_amount = a, p_currency = c, p_debitAccount = y,
                   p_creditAccount = x, p_executeBy = None\<rparr>"
      by (auto simp: parseCredit_scheme)
    have "parseScheme 6 ''TO'' ''DEBIT'' 5 ''FROM'' (t @ (r @ g) @ k) =
            Some (a, c, x, y, if endsWith t ''ON'' then Some k else None)"
      using ne(4,1,3) q tr gr k by (rule parseScheme_on_appended)
    then have pc: "parseCredit (t @ (r @ g) @ k) =
            Some (p\<lparr>p_executeBy := if endsWith t ''ON'' then Some k else None\<rparr>)"
      by (simp add: parseCredit_scheme p)
    have sc: "findKeywordIndex (t @ (r @ g) @ k) ''CREDIT'' 0 = Some 0"
      using ne(2) credit(2) by (rule findKeywordIndex_append)
    have "findKeywordIndex (t @ (r @ g) @ k) ''DEBIT'' 0 \<noteq> Some 0"
    proof
      assume "findKeywordIndex (t @ (r @ g) @ k) ''DEBIT'' 0 = Some 0"
      then have d: "take 5 (toLowerCase (t @ (r @ g) @ k)) = ''debit''"
        by (simp add: starts_iff keyword_lower eval_nat_numeral)
      from sc have "take 6 (toLowerCase (t @ (r @ g) @ k)) = ''credit''"
        by (simp add: starts_iff keyword_lower eval_nat_numeral)
      then have "take 5 (take 6 (toLowerCase (t @ (r @ g) @ k))) = take 5 ''credit''"
        by (rule arg_cong)
      then have "take 5 (toLowerCase (t @ (r @ g) @ k)) = ''credi''"
        by simp
      with d show False by simp
    qed
    with pc sc show ?thesis
      by (simp add: parseInstruction_def trim' t_def [symmetric])
  qed
qed

section \<open>The validators on the boundary cases\<close>

lemma amount_boundaries:
  "isPositiveInteger ''30''" "\<not> isPositiveInteger ''0''" "\<not> isPositiveInteger ''-5''"
  "\<not> isPositiveInteger ''5.5''" "\<not> isPositiveInteger ''abc''"
  by code_simp+

lemma date_boundaries:
  "isValidDate ''2024-02-29''" "\<not> isValidDate ''2024-02-30''" "\<not> isValidDate ''2023-02-29''"
  "\<not> isValidDate ''2024-0a-10''" "\<not> isValidDate ''2024-13-01''" "\<not> isValidDate ''0999-01-01''"
  by code_simp+

lemma calendar_samples:
  "civilFromDay 0 = (1970, 0, 1)" "civilFromDay (- 1) = (1969, 11, 31)"
  "Date_UTC 2026 10 2 = 1793577600000" "civilFromDay (MakeDay 2026 10 2) = (2026, 10, 2)"
  "civilFromDay (MakeDay 2024 1 30) = (2024, 2, 1)"
  by code_simp+

lemma account_id_boundaries:
  "isValidAccountId ''acc-001''" "isValidAccountId ''A.z@9''" "\<not> isValidAccountId []"
  "\<not> isValidAccountId ''a_b''" "\<not> isValidAccountId ''a b''"
  by code_simp+

section \<open>Rounding to a double\<close>

text \<open>
  Doubles count in steps of one up to \<open>2^53\<close>, of two up to \<open>2^54\<close>; a number halfway
  between two doubles goes to the one with the even significand.
\<close>

lemma rounding_samples:
  "numberValue 9007199254740992 = Num 9007199254740992"
  "numberValue 9007199254740993 = Num 9007199254740992"
  "numberValue 9007199254740994 = Num 9007199254740994"
  "numberValue 9007199254740995 = Num 9007199254740996"
  "numberValue (- 9007199254740993) = Num (- 9007199254740992)"
  "parseInt ''9007199254740993'' = Num 9007199254740992"
  "parseInt ''-0'' = Num 0" "parseInt ''12px'' = Num 12" "parseInt ''px'' = NaN"
  by code_simp+

text \<open>An amount of 309 digits is beyond the largest double and reads as \<open>Infinity\<close>.\<close>

lemma amount_overflow: "parseInt (replicate 309 CHR ''9'') = Infinity"
  by code_simp

lemma printing_samples:
  "showNumber (Num 230) = ''230''" "showNumber (Num (- 5)) = ''-5''"
  "showNumber (Num 0) = ''0''"
  "showNumber (Num 9007199254740992) = ''9007199254740992''"
  "showNumber (Num 18446744073709551616) = ''18446744073709552000''"
  "showNumber (Num 1000000000000000000000) = ''1e+21''"
  "showNumber (Num 1180591620717411303424) = ''1.1805916207174113e+21''"
  by code_simp+





lemma numberSub_Num: "numberSub (Num a) (Num b) = numberValue (a - b)"
  by (simp add: numberSub_def)

lemma positive_number:
  "numberLess (Num 0) a \<Longrightarrow> a = Infinity \<or> (\<exists>n. a = Num n \<and> 0 < n)"
  by (cases a) simp_all

lemma covered_amount:
  "numberLess (Num 0) a \<Longrightarrow> \<not> numberLess (Num b) a \<Longrightarrow> \<exists>n. a = Num n \<and> 0 < n \<and> n \<le> b"
  by (cases a) auto

section \<open>The processor branch by branch\<close>

lemma isPositiveInteger_parseInt:
  "isPositiveInteger a \<Longrightarrow> numberLess (Num 0) (parseInt a)"
  by (auto simp: isPositiveInteger_def split: if_splits)

lemma stage_AM01:
  "\<not> isPositiveInteger (p_amount p) \<Longrightarrow>
   processParsed msgs now accounts p =
     mkResponse p (amountOrNull (p_amount p)) failed (INVALID_AMOUNT msgs) AM01
       (accountsWithOriginalBalances accounts)"
  by (simp add: processParsed_def Let_def)

lemma stage_AC04_debit:
  "isPositiveInteger (p_amount p) \<Longrightarrow> \<not> isValidAccountId (p_debitAccount p) \<Longrightarrow>
   processParsed msgs now accounts p =
     mkResponse p (Some (parseInt (p_amount p))) failed
       (INVALID_ACCOUNT_ID msgs @ '': '' @ p_debitAccount p) AC04
       (accountsWithOriginalBalances accounts)"
  by (simp add: processParsed_def Let_def)

lemma stage_AC04_credit:
  "isPositiveInteger (p_amount p) \<Longrightarrow>
   isValidAccountId (p_debitAccount p) \<Longrightarrow> \<not> isValidAccountId (p_creditAccount p) \<Longrightarrow>
   processParsed msgs now accounts p =
     mkResponse p (Some (parseInt (p_amount p))) failed
       (INVALID_ACCOUNT_ID msgs @ '': '' @ p_creditAccount p) AC04
       (accountsWithOriginalBalances accounts)"
  by (simp add: processParsed_def Let_def)

lemma stage_DT01:
  "isPositiveInteger (p_amount p) \<Longrightarrow>
   isValidAccountId (p_debitAccount p) \<Longrightarrow> isValidAccountId (p_creditAccount p) \<Longrightarrow>
   p_executeBy p = Some d \<Longrightarrow> d \<noteq> [] \<Longrightarrow> \<not> isValidDate d \<Longrightarrow>
   processParsed msgs now accounts p =
     mkResponse p (Some (parseInt (p_amount p))) failed (INVALID_DATE_FORMAT msgs) DT01
       (accountsWithOriginalBalances accounts)"
  by (simp add: processParsed_def Let_def)

lemma stage_CU02:
  "formatsPass p \<Longrightarrow> p_currency p \<notin> set SUPPORTED_CURRENCIES \<Longrightarrow>
   processParsed msgs now accounts p =
     mkResponse p (Some (parseInt (p_amount p))) failed
       (UNSUPPORTED_CURRENCY msgs @ ''. Only NGN, USD, GBP, and GHS are supported'') CU02
       (accountsWithOriginalBalances accounts)"
  by (simp add: processParsed_def Let_def formatsPass_def)

lemma stage_AC02:
  "formatsPass p \<Longrightarrow>
   p_currency p \<in> set SUPPORTED_CURRENCIES \<Longrightarrow> p_debitAccount p = p_creditAccount p \<Longrightarrow>
   processParsed msgs now accounts p =
     mkResponse p (Some (parseInt (p_amount p))) failed (SAME_ACCOUNT_ERROR msgs) AC02
       (accountsWithOriginalBalances accounts)"
  by (simp add: processParsed_def Let_def formatsPass_def)

lemma stage_AC03_debit:
  "fieldsPass p \<Longrightarrow>
   find (\<lambda>acc. acc_id acc = p_debitAccount p) accounts = None \<Longrightarrow>
   processParsed msgs now accounts p =
     mkResponse p (Some (parseInt (p_amount p))) failed
       (ACCOUNT_NOT_FOUND msgs @ '': '' @ p_debitAccount p) AC03
       (accountsWithOriginalBalances accounts)"
  by (simp add: processParsed_def Let_def formatsPass_def fieldsPass_def)

lemma stage_AC03_credit:
  "fieldsPass p \<Longrightarrow>
   find (\<lambda>acc. acc_id acc = p_debitAccount p) accounts = Some debitAccountObj \<Longrightarrow>
   find (\<lambda>acc. acc_id acc = p_creditAccount p) accounts = None \<Longrightarrow>
   processParsed msgs now accounts p =
     mkResponse p (Some (parseInt (p_amount p))) failed
       (ACCOUNT_NOT_FOUND msgs @ '': '' @ p_creditAccount p) AC03
       (accountsWithOriginalBalances accounts)"
  by (simp add: processParsed_def Let_def formatsPass_def fieldsPass_def)

lemma stage_CU01_accounts:
  "accountsFound accounts p debitAccountObj creditAccountObj \<Longrightarrow>
   toUpperCase (acc_currency debitAccountObj) \<noteq> toUpperCase (acc_currency creditAccountObj) \<Longrightarrow>
   processParsed msgs now accounts p =
     mkResponse p (Some (parseInt (p_amount p))) failed (CURRENCY_MISMATCH msgs) CU01
       (transactionAccounts accounts (p_debitAccount p) (p_creditAccount p))"
  by (simp add: processParsed_def Let_def formatsPass_def fieldsPass_def accountsFound_def)

lemma stage_CU01_instruction:
  "accountsFound accounts p debitAccountObj creditAccountObj \<Longrightarrow>
   toUpperCase (acc_currency debitAccountObj) = toUpperCase (acc_currency creditAccountObj) \<Longrightarrow>
   p_currency p \<noteq> toUpperCase (acc_currency debitAccountObj) \<Longrightarrow>
   processParsed msgs now accounts p =
     mkResponse p (Some (parseInt (p_amount p))) failed (CURRENCY_MISMATCH msgs) CU01
       (transactionAccounts accounts (p_debitAccount p) (p_creditAccount p))"
  by (simp add: processParsed_def Let_def formatsPass_def fieldsPass_def accountsFound_def)

lemma stage_AC01:
  "accountsFound accounts p debitAccountObj creditAccountObj \<Longrightarrow>
   toUpperCase (acc_currency debitAccountObj) = toUpperCase (acc_currency creditAccountObj) \<Longrightarrow>
   p_currency p = toUpperCase (acc_currency debitAccountObj) \<Longrightarrow>
   numberLess (Num (acc_balance debitAccountObj)) (parseInt (p_amount p)) \<Longrightarrow>
   processParsed msgs now accounts p =
     mkResponse p (Some (parseInt (p_amount p))) failed
       (INSUFFICIENT_FUNDS msgs @ '': has '' @ showNumber (Num (acc_balance debitAccountObj))
          @ '' '' @ p_currency p @ '', needs '' @ showNumber (parseInt (p_amount p)) @ '' ''
          @ p_currency p) AC01
       (transactionAccounts accounts (p_debitAccount p) (p_creditAccount p))"
  by (simp add: processParsed_def Let_def formatsPass_def fieldsPass_def accountsFound_def)

lemma stage_AP00:
  "allChecksPass accounts p debitAccountObj creditAccountObj n \<Longrightarrow>
   (case p_executeBy p of None \<Rightarrow> True
    | Some d \<Rightarrow> \<not> (d \<noteq> [] \<and> compareDateWithToday now d = future)) \<Longrightarrow>
   processParsed msgs now accounts p =
     mkResponse p (Some (Num n)) successful (TRANSACTION_SUCCESSFUL msgs) AP00
       (executedAccounts accounts (p_debitAccount p) (p_creditAccount p)
          (numberValue (acc_balance debitAccountObj - n))
          (numberValue (acc_balance creditAccountObj + n))
          debitAccountObj creditAccountObj)"
  unfolding allChecksPass_def accountsFound_def fieldsPass_def formatsPass_def
  by (cases "p_executeBy p") (auto simp: processParsed_def Let_def numberSub_Num)

lemma stage_AP02:
  "allChecksPass accounts p debitAccountObj creditAccountObj n \<Longrightarrow>
   \<not> (case p_executeBy p of None \<Rightarrow> True
    | Some d \<Rightarrow> \<not> (d \<noteq> [] \<and> compareDateWithToday now d = future)) \<Longrightarrow>
   processParsed msgs now accounts p =
     mkResponse p (Some (Num n)) pending (TRANSACTION_PENDING msgs) AP02
       (executedAccounts accounts (p_debitAccount p) (p_creditAccount p)
          (Num (acc_balance debitAccountObj)) (Num (acc_balance creditAccountObj))
          debitAccountObj creditAccountObj)"
  unfolding allChecksPass_def accountsFound_def fieldsPass_def formatsPass_def
  by (cases "p_executeBy p") (auto simp: processParsed_def Let_def)

lemma processParsed_cases
  [consumes 1, case_names AM01 AC04_debit AC04_credit DT01 CU02 AC02 AC03_debit AC03_credit
     CU01_accounts CU01_instruction AC01 AP00 AP02]:
  assumes ne: "p_executeBy p \<noteq> Some []"
  obtains
    (AM01) "\<not> isPositiveInteger (p_amount p)"
      "processParsed msgs now accounts p =
         mkResponse p (amountOrNull (p_amount p)) failed (INVALID_AMOUNT msgs) AM01
           (accountsWithOriginalBalances accounts)"
  | (AC04_debit) "isPositiveInteger (p_amount p)"
      "numberLess (Num 0) (parseInt (p_amount p))"
      "\<not> isValidAccountId (p_debitAccount p)"
      "processParsed msgs now accounts p =
         mkResponse p (Some (parseInt (p_amount p))) failed
           (INVALID_ACCOUNT_ID msgs @ '': '' @ p_debitAccount p) AC04
           (accountsWithOriginalBalances accounts)"
  | (AC04_credit) "isPositiveInteger (p_amount p)"
      "numberLess (Num 0) (parseInt (p_amount p))"
      "isValidAccountId (p_debitAccount p)" "\<not> isValidAccountId (p_creditAccount p)"
      "processParsed msgs now accounts p =
         mkResponse p (Some (parseInt (p_amount p))) failed
           (INVALID_ACCOUNT_ID msgs @ '': '' @ p_creditAccount p) AC04
           (accountsWithOriginalBalances accounts)"
  | (DT01) d where "isPositiveInteger (p_amount p)"
      "numberLess (Num 0) (parseInt (p_amount p))"
      "isValidAccountId (p_debitAccount p)" "isValidAccountId (p_creditAccount p)"
      "p_executeBy p = Some d" "\<not> isValidDate d"
      "processParsed msgs now accounts p =
         mkResponse p (Some (parseInt (p_amount p))) failed (INVALID_DATE_FORMAT msgs) DT01
           (accountsWithOriginalBalances accounts)"
  | (CU02) "formatsPass p" "numberLess (Num 0) (parseInt (p_amount p))"
      "p_currency p \<notin> set SUPPORTED_CURRENCIES"
      "processParsed msgs now accounts p =
         mkResponse p (Some (parseInt (p_amount p))) failed
           (UNSUPPORTED_CURRENCY msgs @ ''. Only NGN, USD, GBP, and GHS are supported'') CU02
           (accountsWithOriginalBalances accounts)"
  | (AC02) "formatsPass p" "numberLess (Num 0) (parseInt (p_amount p))"
      "p_currency p \<in> set SUPPORTED_CURRENCIES" "p_debitAccount p = p_creditAccount p"
      "processParsed msgs now accounts p =
         mkResponse p (Some (parseInt (p_amount p))) failed (SAME_ACCOUNT_ERROR msgs) AC02
           (accountsWithOriginalBalances accounts)"
  | (AC03_debit) "fieldsPass p" "numberLess (Num 0) (parseInt (p_amount p))"
      "find (\<lambda>acc. acc_id acc = p_debitAccount p) accounts = None"
      "processParsed msgs now accounts p =
         mkResponse p (Some (parseInt (p_amount p))) failed
           (ACCOUNT_NOT_FOUND msgs @ '': '' @ p_debitAccount p) AC03
           (accountsWithOriginalBalances accounts)"
  | (AC03_credit) debitAccountObj where "fieldsPass p"
      "numberLess (Num 0) (parseInt (p_amount p))"
      "find (\<lambda>acc. acc_id acc = p_debitAccount p) accounts = Some debitAccountObj"
      "find (\<lambda>acc. acc_id acc = p_creditAccount p) accounts = None"
      "processParsed msgs now accounts p =
         mkResponse p (Some (parseInt (p_amount p))) failed
           (ACCOUNT_NOT_FOUND msgs @ '': '' @ p_creditAccount p) AC03
           (accountsWithOriginalBalances accounts)"
  | (CU01_accounts) debitAccountObj creditAccountObj where
      "accountsFound accounts p debitAccountObj creditAccountObj"
      "numberLess (Num 0) (parseInt (p_amount p))"
      "toUpperCase (acc_currency debitAccountObj) \<noteq> toUpperCase (acc_currency creditAccountObj)"
      "processParsed msgs now accounts p =
         mkResponse p (Some (parseInt (p_amount p))) failed (CURRENCY_MISMATCH msgs) CU01
           (transactionAccounts accounts (p_debitAccount p) (p_creditAccount p))"
  | (CU01_instruction) debitAccountObj creditAccountObj where
      "accountsFound accounts p debitAccountObj creditAccountObj"
      "numberLess (Num 0) (parseInt (p_amount p))"
      "toUpperCase (acc_currency debitAccountObj) = toUpperCase (acc_currency creditAccountObj)"
      "p_currency p \<noteq> toUpperCase (acc_currency debitAccountObj)"
      "processParsed msgs now accounts p =
         mkResponse p (Some (parseInt (p_amount p))) failed (CURRENCY_MISMATCH msgs) CU01
           (transactionAccounts accounts (p_debitAccount p) (p_creditAccount p))"
  | (AC01) debitAccountObj creditAccountObj where
      "accountsFound accounts p debitAccountObj creditAccountObj"
      "numberLess (Num 0) (parseInt (p_amount p))"
      "toUpperCase (acc_currency debitAccountObj) = toUpperCase (acc_currency creditAccountObj)"
      "p_currency p = toUpperCase (acc_currency debitAccountObj)"
      "numberLess (Num (acc_balance debitAccountObj)) (parseInt (p_amount p))"
      "processParsed msgs now accounts p =
         mkResponse p (Some (parseInt (p_amount p))) failed
           (INSUFFICIENT_FUNDS msgs @ '': has '' @ showNumber (Num (acc_balance debitAccountObj))
              @ '' '' @ p_currency p @ '', needs '' @ showNumber (parseInt (p_amount p))
              @ '' '' @ p_currency p) AC01
           (transactionAccounts accounts (p_debitAccount p) (p_creditAccount p))"
  | (AP00) n debitAccountObj creditAccountObj where
      "allChecksPass accounts p debitAccountObj creditAccountObj n" "0 < n"
      "case p_executeBy p of None \<Rightarrow> True | Some d \<Rightarrow> compareDateWithToday now d \<noteq> future"
      "processParsed msgs now accounts p =
         mkResponse p (Some (Num n)) successful (TRANSACTION_SUCCESSFUL msgs) AP00
           (executedAccounts accounts (p_debitAccount p) (p_creditAccount p)
              (numberValue (acc_balance debitAccountObj - n))
              (numberValue (acc_balance creditAccountObj + n))
              debitAccountObj creditAccountObj)"
  | (AP02) n debitAccountObj creditAccountObj d where
      "allChecksPass accounts p debitAccountObj creditAccountObj n" "0 < n"
      "p_executeBy p = Some d" "compareDateWithToday now d = future"
      "processParsed msgs now accounts p =
         mkResponse p (Some (Num n)) pending (TRANSACTION_PENDING msgs) AP02
           (executedAccounts accounts (p_debitAccount p) (p_creditAccount p)
              (Num (acc_balance debitAccountObj)) (Num (acc_balance creditAccountObj))
              debitAccountObj creditAccountObj)"
proof (cases "isPositiveInteger (p_amount p)")
  case False
  then show ?thesis
    by (intro AM01) (simp_all add: stage_AM01)
next
  case c1: True
  then have pos: "numberLess (Num 0) (parseInt (p_amount p))"
    by (rule isPositiveInteger_parseInt)
  show ?thesis
  proof (cases "isValidAccountId (p_debitAccount p)")
    case False
    with c1 pos show ?thesis
      by (intro AC04_debit) (simp_all add: stage_AC04_debit)
  next
    case c2: True
    show ?thesis
    proof (cases "isValidAccountId (p_creditAccount p)")
      case False
      with c1 c2 pos show ?thesis
        by (intro AC04_credit) (simp_all add: stage_AC04_credit)
    next
      case c3: True
      show ?thesis
      proof (cases "case p_executeBy p of None \<Rightarrow> True | Some d \<Rightarrow> isValidDate d")
        case False
        then obtain d where d: "p_executeBy p = Some d" "\<not> isValidDate d"
          by (auto split: option.splits)
        with ne have "d \<noteq> []" by auto
        with c1 c2 c3 pos d show ?thesis
          by (intro DT01 [of d]) (simp_all add: stage_DT01)
      next
        case c4: True
        then have f: "formatsPass p"
          using c1 c2 c3 by (auto simp: formatsPass_def split: option.splits)
        show ?thesis
        proof (cases "p_currency p \<in> set SUPPORTED_CURRENCIES")
          case False
          with f pos show ?thesis
            by (intro CU02) (simp_all add: stage_CU02)
        next
          case c5: True
          show ?thesis
          proof (cases "p_debitAccount p = p_creditAccount p")
            case True
            with f pos c5 show ?thesis
              by (intro AC02) (simp_all add: stage_AC02)
          next
            case c6: False
            with f c5 have g: "fieldsPass p"
              by (simp add: fieldsPass_def)
            show ?thesis
            proof (cases "find (\<lambda>acc. acc_id acc = p_debitAccount p) accounts")
              case None
              with g pos show ?thesis
                by (intro AC03_debit) (simp_all add: stage_AC03_debit)
            next
              case c7: (Some debitAccountObj)
              show ?thesis
              proof (cases "find (\<lambda>acc. acc_id acc = p_creditAccount p) accounts")
                case None
                with g pos c7 show ?thesis
                  by (intro AC03_credit [of debitAccountObj])
                    (simp_all add: stage_AC03_credit)
              next
                case c8: (Some creditAccountObj)
                with g c7 have h: "accountsFound accounts p debitAccountObj creditAccountObj"
                  by (simp add: accountsFound_def)
                show ?thesis
                proof (cases "toUpperCase (acc_currency debitAccountObj)
                                = toUpperCase (acc_currency creditAccountObj)")
                  case False
                  with h pos show ?thesis
                    by (intro CU01_accounts [of debitAccountObj creditAccountObj])
                      (simp_all add: stage_CU01_accounts)
                next
                  case c9: True
                  show ?thesis
                  proof (cases "p_currency p = toUpperCase (acc_currency debitAccountObj)")
                    case False
                    with h pos c9 show ?thesis
                      by (intro CU01_instruction [of debitAccountObj creditAccountObj])
                        (simp_all add: stage_CU01_instruction)
                  next
                    case c10: True
                    show ?thesis
                    proof (cases "numberLess (Num (acc_balance debitAccountObj))
                                    (parseInt (p_amount p))")
                      case True
                      with h pos c9 c10 show ?thesis
                        by (intro AC01 [of debitAccountObj creditAccountObj])
                          (simp_all add: stage_AC01)
                    next
                      case c11: False
                      with pos obtain n where n: "parseInt (p_amount p) = Num n" "0 < n"
                          "n \<le> acc_balance debitAccountObj"
                        using covered_amount by blast
                      with h c9 c10
                      have a: "allChecksPass accounts p debitAccountObj creditAccountObj n"
                        by (simp add: allChecksPass_def)
                      show ?thesis
                      proof (cases "case p_executeBy p of None \<Rightarrow> True
                                    | Some d \<Rightarrow> compareDateWithToday now d \<noteq> future")
                        case True
                        then have "case p_executeBy p of None \<Rightarrow> True
                            | Some d \<Rightarrow> \<not> (d \<noteq> [] \<and> compareDateWithToday now d = future)"
                          by (auto split: option.splits)
                        with a n True show ?thesis
                          by (intro AP00 [of debitAccountObj creditAccountObj n])
                            (simp_all add: stage_AP00)
                      next
                        case False
                        then obtain d where d: "p_executeBy p = Some d"
                            "compareDateWithToday now d = future"
                          by (auto split: option.splits)
                        with ne have "\<not> (case p_executeBy p of None \<Rightarrow> True
                            | Some d \<Rightarrow> \<not> (d \<noteq> [] \<and> compareDateWithToday now d = future))"
                          by auto
                        with a n d show ?thesis
                          by (intro AP02 [of debitAccountObj creditAccountObj n d])
                            (simp_all add: stage_AP02)
                      qed
                    qed
                  qed
                qed
              qed
            qed
          qed
        qed
      qed
    qed
  qed
qed


lemma executedAccounts_ids:
  "map snap_id (executedAccounts accounts d c nd nc dObj cObj) =
     filter (\<lambda>i. i = d \<or> i = c) (map acc_id accounts)"
  by (induction accounts) (auto simp: Let_def)



lemmas chain_defs = first_failure_def validation_chain_def Let_def

lemmas progress_defs = formatsPass_def fieldsPass_def accountsFound_def allChecksPass_def

section \<open>The order of the validations\<close>

text \<open>
  Claim C1 as stated lists the last three checks as: the currency of the debit account
  equals the currency of the credit account, the currency of the instruction equals the
  currency of the debit account, and the balance of the debit account is at least the
  amount. The processor compares the currencies of the accounts in upper case, and it
  compares the balance with the double that \<open>parseInt\<close> makes of the amount. With the
  balance \<open>2^53\<close> and the amount \<open>2^53 + 1\<close>, which \<open>parseInt\<close> rounds to \<open>2^53\<close>, the
  eleventh check as stated fails, yet the transfer is executed. With the currency of the
  accounts written \<open>usd\<close>, the tenth check as stated fails, yet the transfer is executed.
\<close>

theorem validation_order_counterexample:
  "parseInstruction ''DEBIT 9007199254740993 USD FROM ACCOUNT b FOR CREDIT TO ACCOUNT a'' =
     Some \<lparr>p_type = DEBIT, p_amount = ''9007199254740993'', p_currency = ''USD'',
           p_debitAccount = ''b'', p_creditAccount = ''a'', p_executeBy = None\<rparr> \<and>
   spec_first_failure largeAccounts
     \<lparr>p_type = DEBIT, p_amount = ''9007199254740993'', p_currency = ''USD'',
      p_debitAccount = ''b'', p_creditAccount = ''a'', p_executeBy = None\<rparr> = Some AC01 \<and>
   status_code (parsePaymentInstruction sampleMessages 0 largeAccounts
     ''DEBIT 9007199254740993 USD FROM ACCOUNT b FOR CREDIT TO ACCOUNT a'') = AP00 \<and>
   parseInstruction ''DEBIT 30 USD FROM ACCOUNT a FOR CREDIT TO ACCOUNT b'' =
     Some \<lparr>p_type = DEBIT, p_amount = ''30'', p_currency = ''USD'', p_debitAccount = ''a'',
           p_creditAccount = ''b'', p_executeBy = None\<rparr> \<and>
   spec_first_failure
     [\<lparr>acc_id = ''a'', acc_balance = 230, acc_currency = ''usd''\<rparr>,
      \<lparr>acc_id = ''b'', acc_balance = 300, acc_currency = ''usd''\<rparr>]
     \<lparr>p_type = DEBIT, p_amount = ''30'', p_currency = ''USD'', p_debitAccount = ''a'',
      p_creditAccount = ''b'', p_executeBy = None\<rparr> = Some CU01 \<and>
   status_code (parsePaymentInstruction sampleMessages 0
     [\<lparr>acc_id = ''a'', acc_balance = 230, acc_currency = ''usd''\<rparr>,
      \<lparr>acc_id = ''b'', acc_balance = 300, acc_currency = ''usd''\<rparr>]
     ''DEBIT 30 USD FROM ACCOUNT a FOR CREDIT TO ACCOUNT b'') = AP00"
  by code_simp

text \<open>
  Claim C1, amended. Whenever the instruction parses, the processor fails with the code
  of the first check that does not hold, in the order amount format, format of the debit
  account id, format of the credit account id, date format, currency supported, accounts
  different, debit account in the list, credit account in the list, currencies of the two
  accounts equal in upper case, currency of the instruction equal to the currency of the
  debit account in upper case, balance of the debit account not less than the number
  \<open>parseInt\<close> makes of the amount (codes AM01, AC04, AC04, DT01, CU02, AC02, AC03, AC03,
  CU01, CU01, AC01), whatever the later checks would say, and it does not fail when all
  eleven checks hold.
\<close>

theorem validation_order:
  assumes "parseInstruction instruction = Some p"
  shows "case first_failure accounts p of
           Some code \<Rightarrow>
             status (parsePaymentInstruction msgs now accounts instruction) = failed \<and>
             status_code (parsePaymentInstruction msgs now accounts instruction) = code
         | None \<Rightarrow> status (parsePaymentInstruction msgs now accounts instruction) \<noteq> failed"
proof -
  have r: "parsePaymentInstruction msgs now accounts instruction
             = processParsed msgs now accounts p"
    using assms by (simp add: parsePaymentInstruction_def)
  have ne: "p_executeBy p \<noteq> Some []"
    using assms by (rule parseInstruction_executeBy)
  from ne show ?thesis
  proof (cases rule: processParsed_cases [where msgs = msgs and now = now and accounts = accounts])
    case AM01
    then show ?thesis by (simp add: r mkResponse_def chain_defs)
  next
    case AC04_debit
    then show ?thesis by (simp add: r mkResponse_def chain_defs)
  next
    case AC04_credit
    then show ?thesis by (simp add: r mkResponse_def chain_defs)
  next
    case DT01
    then show ?thesis by (simp add: r mkResponse_def chain_defs)
  next
    case CU02
    then show ?thesis using ne
      by (auto simp: r mkResponse_def chain_defs formatsPass_def split: option.splits)
  next
    case AC02
    then show ?thesis using ne
      by (auto simp: r mkResponse_def chain_defs formatsPass_def split: option.splits)
  next
    case AC03_debit
    then show ?thesis using ne
      by (auto simp: r mkResponse_def chain_defs progress_defs split: option.splits)
  next
    case AC03_credit
    then show ?thesis using ne
      by (auto simp: r mkResponse_def chain_defs progress_defs split: option.splits)
  next
    case CU01_accounts
    then show ?thesis using ne
      by (auto simp: r mkResponse_def chain_defs progress_defs split: option.splits)
  next
    case CU01_instruction
    then show ?thesis using ne
      by (auto simp: r mkResponse_def chain_defs progress_defs split: option.splits)
  next
    case AC01
    then show ?thesis using ne
      by (auto simp: r mkResponse_def chain_defs progress_defs split: option.splits)
  next
    case AP00
    then show ?thesis using ne
      by (auto simp: r mkResponse_def chain_defs progress_defs split: option.splits)
  next
    case AP02
    then show ?thesis using ne
      by (auto simp: r mkResponse_def chain_defs progress_defs split: option.splits)
  qed
qed

theorem validation_order_witness:
  "parseInstruction ''DEBIT 300 USD FROM ACCOUNT a FOR CREDIT TO ACCOUNT b'' =
     Some \<lparr>p_type = DEBIT, p_amount = ''300'', p_currency = ''USD'', p_debitAccount = ''a'',
           p_creditAccount = ''b'', p_executeBy = None\<rparr> \<and>
   first_failure sampleAccounts
       \<lparr>p_type = DEBIT, p_amount = ''300'', p_currency = ''USD'', p_debitAccount = ''a'',
        p_creditAccount = ''b'', p_executeBy = None\<rparr> = Some AC01 \<and>
   status (parsePaymentInstruction sampleMessages 0 sampleAccounts
             ''DEBIT 300 USD FROM ACCOUNT a FOR CREDIT TO ACCOUNT b'') = failed \<and>
   status_code (parsePaymentInstruction sampleMessages 0 sampleAccounts
             ''DEBIT 300 USD FROM ACCOUNT a FOR CREDIT TO ACCOUNT b'') = AC01"
proof -
  have parsed: "parseInstruction ''DEBIT 300 USD FROM ACCOUNT a FOR CREDIT TO ACCOUNT b'' =
     Some \<lparr>p_type = DEBIT, p_amount = ''300'', p_currency = ''USD'', p_debitAccount = ''a'',
           p_creditAccount = ''b'', p_executeBy = None\<rparr>"
    by code_simp
  have fails: "first_failure sampleAccounts
       \<lparr>p_type = DEBIT, p_amount = ''300'', p_currency = ''USD'', p_debitAccount = ''a'',
        p_creditAccount = ''b'', p_executeBy = None\<rparr> = Some AC01"
    by code_simp
  show ?thesis
    using validation_order [OF parsed, where accounts = sampleAccounts
        and msgs = sampleMessages and now = 0] parsed fails
    by simp
qed

section \<open>Execution and deferral\<close>




section \<open>Conservation of the balances\<close>




section \<open>Which accounts a response lists\<close>

text \<open>
  Claim C4 as stated says that from check 7 on only the debit and the credit account are
  listed. The processor lists every account when an account is not found (AC03): with the
  accounts \<open>a\<close> and \<open>b\<close> and a transfer from \<open>a\<close> to the unknown \<open>z\<close>, the response
  lists \<open>b\<close>, which is neither party.
\<close>

theorem snapshot_policy_counterexample:
  "status_code (parsePaymentInstruction sampleMessages 0 sampleAccounts
      ''DEBIT 30 USD FROM ACCOUNT a FOR CREDIT TO ACCOUNT z'') = AC03 \<and>
   debit_account (parsePaymentInstruction sampleMessages 0 sampleAccounts
      ''DEBIT 30 USD FROM ACCOUNT a FOR CREDIT TO ACCOUNT z'') = Some ''a'' \<and>
   credit_account (parsePaymentInstruction sampleMessages 0 sampleAccounts
      ''DEBIT 30 USD FROM ACCOUNT a FOR CREDIT TO ACCOUNT z'') = Some ''z'' \<and>
   r_accounts (parsePaymentInstruction sampleMessages 0 sampleAccounts
      ''DEBIT 30 USD FROM ACCOUNT a FOR CREDIT TO ACCOUNT z'') =
     [\<lparr>snap_id = ''a'', balance = Num 230, balance_before = Num 230, snap_currency = ''USD''\<rparr>,
      \<lparr>snap_id = ''b'', balance = Num 300, balance_before = Num 300, snap_currency = ''USD''\<rparr>]"
  by code_simp

text \<open>
  Claim C4, amended. When the processor fails at one of the checks 1 to 8 (codes AM01,
  AC04, DT01, CU02, AC02, AC03), the response lists every input account in the input
  order, with its id, \<open>balance = balance_before\<close> its balance, and its currency in upper
  case. When it fails at the checks 9 to 11 (codes CU01, AC01), it lists in the same way
  just the accounts whose id is the debit or the credit account, in the input order. In
  the successful and the pending result the ids listed are those of the input accounts
  that are the debit or the credit account, in the input order. In every failure each
  snapshot has \<open>balance = balance_before\<close>.
\<close>

theorem snapshot_policy:
  assumes "parseInstruction instruction = Some p"
  shows
    "(status_code (parsePaymentInstruction msgs now accounts instruction)
        \<in> {AM01, AC04, DT01, CU02, AC02, AC03} \<longrightarrow>
      r_accounts (parsePaymentInstruction msgs now accounts instruction) =
        map (\<lambda>acc. \<lparr>snap_id = acc_id acc, balance = Num (acc_balance acc),
                     balance_before = Num (acc_balance acc),
                     snap_currency = toUpperCase (acc_currency acc)\<rparr>) accounts) \<and>
     (status_code (parsePaymentInstruction msgs now accounts instruction) \<in> {CU01, AC01} \<longrightarrow>
      r_accounts (parsePaymentInstruction msgs now accounts instruction) =
        map (\<lambda>acc. \<lparr>snap_id = acc_id acc, balance = Num (acc_balance acc),
                     balance_before = Num (acc_balance acc),
                     snap_currency = toUpperCase (acc_currency acc)\<rparr>)
          (filter (\<lambda>acc. acc_id acc = p_debitAccount p \<or> acc_id acc = p_creditAccount p)
             accounts)) \<and>
     (status_code (parsePaymentInstruction msgs now accounts instruction) \<in> {AP00, AP02} \<longrightarrow>
      map snap_id (r_accounts (parsePaymentInstruction msgs now accounts instruction)) =
        filter (\<lambda>i. i = p_debitAccount p \<or> i = p_creditAccount p) (map acc_id accounts)) \<and>
     (status (parsePaymentInstruction msgs now accounts instruction) = failed \<longrightarrow>
      (\<forall>s \<in> set (r_accounts (parsePaymentInstruction msgs now accounts instruction)).
         balance s = balance_before s))"
proof -
  have r: "parsePaymentInstruction msgs now accounts instruction
             = processParsed msgs now accounts p"
    using assms by (simp add: parsePaymentInstruction_def)
  have ne: "p_executeBy p \<noteq> Some []"
    using assms by (rule parseInstruction_executeBy)
  have ob: "originalBalance = (\<lambda>acc. \<lparr>snap_id = acc_id acc, balance = Num (acc_balance acc),
                     balance_before = Num (acc_balance acc),
                     snap_currency = toUpperCase (acc_currency acc)\<rparr>)"
    by (rule ext) (simp add: originalBalance_def)
  note defs = r mkResponse_def accountsWithOriginalBalances_def transactionAccounts_def
    executedAccounts_ids ob
  from ne show ?thesis
    by (cases rule: processParsed_cases [where msgs = msgs and now = now and accounts = accounts])
      (simp_all add: defs)
qed

theorem snapshot_policy_witness:
  "parseInstruction ''DEBIT 300 USD FROM ACCOUNT a FOR CREDIT TO ACCOUNT b'' =
     Some \<lparr>p_type = DEBIT, p_amount = ''300'', p_currency = ''USD'', p_debitAccount = ''a'',
           p_creditAccount = ''b'', p_executeBy = None\<rparr> \<and>
   status_code (parsePaymentInstruction sampleMessages 0
      (\<lparr>acc_id = ''c'', acc_balance = 5, acc_currency = ''ngn''\<rparr> # sampleAccounts)
      ''DEBIT 300 USD FROM ACCOUNT a FOR CREDIT TO ACCOUNT b'') = AC01 \<and>
   status (parsePaymentInstruction sampleMessages 0
      (\<lparr>acc_id = ''c'', acc_balance = 5, acc_currency = ''ngn''\<rparr> # sampleAccounts)
      ''DEBIT 300 USD FROM ACCOUNT a FOR CREDIT TO ACCOUNT b'') = failed \<and>
   r_accounts (parsePaymentInstruction sampleMessages 0
      (\<lparr>acc_id = ''c'', acc_balance = 5, acc_currency = ''ngn''\<rparr> # sampleAccounts)
      ''DEBIT 300 USD FROM ACCOUNT a FOR CREDIT TO ACCOUNT b'') =
     [\<lparr>snap_id = ''a'', balance = Num 230, balance_before = Num 230, snap_currency = ''USD''\<rparr>,
      \<lparr>snap_id = ''b'', balance = Num 300, balance_before = Num 300, snap_currency = ''USD''\<rparr>]"
proof -
  have parsed: "parseInstruction ''DEBIT 300 USD FROM ACCOUNT a FOR CREDIT TO ACCOUNT b'' =
     Some \<lparr>p_type = DEBIT, p_amount = ''300'', p_currency = ''USD'', p_debitAccount = ''a'',
           p_creditAccount = ''b'', p_executeBy = None\<rparr>"
    by code_simp
  have code: "status_code (parsePaymentInstruction sampleMessages 0
      (\<lparr>acc_id = ''c'', acc_balance = 5, acc_currency = ''ngn''\<rparr> # sampleAccounts)
      ''DEBIT 300 USD FROM ACCOUNT a FOR CREDIT TO ACCOUNT b'') = AC01"
    by code_simp
  have st: "status (parsePaymentInstruction sampleMessages 0
      (\<lparr>acc_id = ''c'', acc_balance = 5, acc_currency = ''ngn''\<rparr> # sampleAccounts)
      ''DEBIT 300 USD FROM ACCOUNT a FOR CREDIT TO ACCOUNT b'') = failed"
    by code_simp
  have up: "toUpperCase ''USD'' = ''USD''"
    by code_simp
  show ?thesis
    using snapshot_policy [OF parsed, where msgs = sampleMessages and now = 0
        and accounts = "\<lparr>acc_id = ''c'', acc_balance = 5, acc_currency = ''ngn''\<rparr> # sampleAccounts"]
      parsed code st up
    by (simp add: sampleAccounts_def)
qed

section \<open>Failures are results\<close>

text \<open>
  Claim C7. The processor returns a result for every input (the model is a total function
  with no error branch, as no statement of the source throws on well-typed input). The
  result carries one of the eleven codes of the interface, \<open>successful\<close> exactly with AP00,
  \<open>pending\<close> exactly with AP02 and \<open>failed\<close> with every other code, and a reason that
  begins with the message of the code. An instruction the parser rejects gives \<open>failed\<close>
  with SY03 and no accounts.
\<close>

theorem failures_are_values:
  "status_code (parsePaymentInstruction msgs now accounts instruction)
     \<in> {AP00, AP02, AM01, AC04, DT01, CU02, AC02, AC03, CU01, AC01, SY03} \<and>
   (status (parsePaymentInstruction msgs now accounts instruction) = successful \<longleftrightarrow>
      status_code (parsePaymentInstruction msgs now accounts instruction) = AP00) \<and>
   (status (parsePaymentInstruction msgs now accounts instruction) = pending \<longleftrightarrow>
      status_code (parsePaymentInstruction msgs now accounts instruction) = AP02) \<and>
   (\<exists>detail. status_reason (parsePaymentInstruction msgs now accounts instruction) =
      codeMessage msgs (status_code (parsePaymentInstruction msgs now accounts instruction))
        @ detail) \<and>
   (parseInstruction instruction = None \<longrightarrow>
      status (parsePaymentInstruction msgs now accounts instruction) = failed \<and>
      status_code (parsePaymentInstruction msgs now accounts instruction) = SY03 \<and>
      r_accounts (parsePaymentInstruction msgs now accounts instruction) = [])"
proof (cases "parseInstruction instruction")
  case None
  then show ?thesis
    by (simp add: parsePaymentInstruction_def unparseableResponse_def codeMessage_def)
next
  case (Some p)
  then have r: "parsePaymentInstruction msgs now accounts instruction
             = processParsed msgs now accounts p"
    by (simp add: parsePaymentInstruction_def)
  have ne: "p_executeBy p \<noteq> Some []"
    using Some by (rule parseInstruction_executeBy)
  from ne show ?thesis
    by (cases rule: processParsed_cases [where msgs = msgs and now = now and accounts = accounts])
      (simp_all add: r Some mkResponse_def codeMessage_def)
qed

theorem failures_are_values_witness:
  "parseInstruction ''SEND 30 USD TO b'' = None \<and>
   status (parsePaymentInstruction sampleMessages 0 sampleAccounts ''SEND 30 USD TO b'') = failed \<and>
   status_code (parsePaymentInstruction sampleMessages 0 sampleAccounts ''SEND 30 USD TO b'') = SY03 \<and>
   r_accounts (parsePaymentInstruction sampleMessages 0 sampleAccounts ''SEND 30 USD TO b'') = []"
proof -
  have "parseInstruction ''SEND 30 USD TO b'' = None"
    by code_simp
  then show ?thesis
    using failures_are_values [of sampleMessages 0 sampleAccounts "''SEND 30 USD TO b''"]
    by simp
qed

section \<open>The amount of a response\<close>

text \<open>
  Claim C8 says the amount of a response is \<open>null\<close> or an integer. For an amount token
  with no leading digit the AM01 branch stores what \<open>parseInt\<close> returns, \<open>NaN\<close>: the
  guard \<open>amount ? parseInt(amount, 10) : null\<close> tests the token for emptiness, not the
  number. The theorem evaluates the processor on such an instruction, for any accounts.
\<close>

theorem amount_not_a_number:
  "status_code (parsePaymentInstruction msgs now accounts
      ''DEBIT abc USD FROM ACCOUNT a FOR CREDIT TO ACCOUNT b'') = AM01 \<and>
   r_amount (parsePaymentInstruction msgs now accounts
      ''DEBIT abc USD FROM ACCOUNT a FOR CREDIT TO ACCOUNT b'') = Some NaN"
proof -
  have parsed: "parseInstruction ''DEBIT abc USD FROM ACCOUNT a FOR CREDIT TO ACCOUNT b'' =
     Some \<lparr>p_type = DEBIT, p_amount = ''abc'', p_currency = ''USD'', p_debitAccount = ''a'',
           p_creditAccount = ''b'', p_executeBy = None\<rparr>"
    by code_simp
  have bad: "\<not> isPositiveInteger ''abc''"
    by code_simp
  have nan: "amountOrNull ''abc'' = Some NaN"
    by code_simp
  show ?thesis
    using bad nan by (simp add: parsePaymentInstruction_def parsed stage_AM01 mkResponse_def)
qed

text \<open>
  Outside the AM01 branch the amount is \<open>null\<close> with SY03 and a positive number with
  every other code: a positive integer, or \<open>Infinity\<close> when the digits of the amount
  exceed the range of a double, which the check of the amount lets pass. In a successful
  or pending result it is a positive integer.
\<close>

lemma amount_of_response:
  "(status_code (parsePaymentInstruction msgs now accounts instruction) = SY03 \<longrightarrow>
      r_amount (parsePaymentInstruction msgs now accounts instruction) = None) \<and>
   (status_code (parsePaymentInstruction msgs now accounts instruction) \<notin> {SY03, AM01} \<longrightarrow>
      r_amount (parsePaymentInstruction msgs now accounts instruction) = Some Infinity \<or>
      (\<exists>n. 0 < n \<and>
         r_amount (parsePaymentInstruction msgs now accounts instruction) = Some (Num n))) \<and>
   (status_code (parsePaymentInstruction msgs now accounts instruction) \<in> {AP00, AP02} \<longrightarrow>
      (\<exists>n. 0 < n \<and>
         r_amount (parsePaymentInstruction msgs now accounts instruction) = Some (Num n)))"
proof (cases "parseInstruction instruction")
  case None
  then show ?thesis
    by (simp add: parsePaymentInstruction_def unparseableResponse_def)
next
  case (Some p)
  then have r: "parsePaymentInstruction msgs now accounts instruction
             = processParsed msgs now accounts p"
    by (simp add: parsePaymentInstruction_def)
  have ne: "p_executeBy p \<noteq> Some []"
    using Some by (rule parseInstruction_executeBy)
  from ne show ?thesis
    by (cases rule: processParsed_cases [where msgs = msgs and now = now and accounts = accounts])
      (use positive_number [of "parseInt (p_amount p)"] in
        \<open>auto simp: r mkResponse_def\<close>)
qed

section \<open>The case of account currencies\<close>

lemma originalBalance_case: "sameUpToCase a b \<Longrightarrow> originalBalance a = originalBalance b"
  by (simp add: sameUpToCase_def originalBalance_def)

lemma accountsWithOriginalBalances_case:
  "list_all2 sameUpToCase xs ys \<Longrightarrow>
   accountsWithOriginalBalances xs = accountsWithOriginalBalances ys"
proof (induction rule: list_all2_induct)
  case Nil
  show ?case by simp
next
  case (Cons x xs y ys)
  from Cons(1) have "originalBalance x = originalBalance y"
    by (rule originalBalance_case)
  with Cons(3) show ?case
    by (simp add: accountsWithOriginalBalances_def)
qed

lemma transactionAccounts_case:
  "list_all2 sameUpToCase xs ys \<Longrightarrow> transactionAccounts xs d c = transactionAccounts ys d c"
proof (induction rule: list_all2_induct)
  case Nil
  show ?case by simp
next
  case (Cons x xs y ys)
  from Cons(1) have "originalBalance x = originalBalance y"
    by (rule originalBalance_case)
  moreover from Cons(1) have "acc_id x = acc_id y"
    by (simp add: sameUpToCase_def)
  ultimately show ?case
    using Cons(3) by (simp add: transactionAccounts_def)
qed

lemma executedAccounts_case:
  "list_all2 sameUpToCase xs ys \<Longrightarrow> acc_balance dObj = acc_balance dObj' \<Longrightarrow>
   acc_balance cObj = acc_balance cObj' \<Longrightarrow>
   executedAccounts xs d c nd nc dObj cObj = executedAccounts ys d c nd nc dObj' cObj'"
  by (induction rule: list_all2_induct) (simp_all add: sameUpToCase_def Let_def)

lemma find_case:
  "list_all2 sameUpToCase xs ys \<Longrightarrow>
   rel_option sameUpToCase (find (\<lambda>acc. acc_id acc = i) xs) (find (\<lambda>acc. acc_id acc = i) ys)"
  by (induction rule: list_all2_induct) (simp_all add: sameUpToCase_def)

lemma processParsed_case:
  assumes "list_all2 sameUpToCase xs ys"
  shows "processParsed msgs now xs p = processParsed msgs now ys p"
proof -
  note eqs = accountsWithOriginalBalances_case [OF assms] transactionAccounts_case [OF assms]
  have d: "rel_option sameUpToCase (find (\<lambda>acc. acc_id acc = p_debitAccount p) xs)
            (find (\<lambda>acc. acc_id acc = p_debitAccount p) ys)"
    and c: "rel_option sameUpToCase (find (\<lambda>acc. acc_id acc = p_creditAccount p) xs)
            (find (\<lambda>acc. acc_id acc = p_creditAccount p) ys)"
    using assms by (rule find_case)+
  show ?thesis
  proof (cases "find (\<lambda>acc. acc_id acc = p_debitAccount p) xs")
    case None
    with d have "find (\<lambda>acc. acc_id acc = p_debitAccount p) ys = None"
      by (cases "find (\<lambda>acc. acc_id acc = p_debitAccount p) ys") simp_all
    with None show ?thesis
      by (simp add: processParsed_def Let_def eqs)
  next
    case dx: (Some dObj)
    with d obtain dObj' where dy: "find (\<lambda>acc. acc_id acc = p_debitAccount p) ys = Some dObj'"
      and dd: "sameUpToCase dObj dObj'"
      by (cases "find (\<lambda>acc. acc_id acc = p_debitAccount p) ys") simp_all
    show ?thesis
    proof (cases "find (\<lambda>acc. acc_id acc = p_creditAccount p) xs")
      case None
      with c have "find (\<lambda>acc. acc_id acc = p_creditAccount p) ys = None"
        by (cases "find (\<lambda>acc. acc_id acc = p_creditAccount p) ys") simp_all
      with None dx dy show ?thesis
        by (simp add: processParsed_def Let_def eqs)
    next
      case cx: (Some cObj)
      with c obtain cObj' where cy: "find (\<lambda>acc. acc_id acc = p_creditAccount p) ys = Some cObj'"
        and cc: "sameUpToCase cObj cObj'"
        by (cases "find (\<lambda>acc. acc_id acc = p_creditAccount p) ys") simp_all
      have bal: "acc_balance dObj = acc_balance dObj'" "acc_balance cObj = acc_balance cObj'"
        and cur: "toUpperCase (acc_currency dObj) = toUpperCase (acc_currency dObj')"
          "toUpperCase (acc_currency cObj) = toUpperCase (acc_currency cObj')"
        using dd cc by (simp_all add: sameUpToCase_def)
      have ex: "executedAccounts xs d c nd nc dObj cObj = executedAccounts ys d c nd nc dObj' cObj'"
        for d c nd nc
        using assms bal by (rule executedAccounts_case)
      show ?thesis
        by (simp add: processParsed_def Let_def eqs dx dy cx cy bal cur ex)
    qed
  qed
qed

lemma snapshot_currency:
  "s \<in> set (executedAccounts accounts d c nd nc dObj cObj) \<Longrightarrow>
   \<exists>a \<in> set accounts. snap_id s = acc_id a \<and> snap_currency s = toUpperCase (acc_currency a)"
  by (induction accounts) (auto simp: Let_def split: if_splits)

text \<open>
  Claim C9. The processor reads the currency of an account only in upper case: two account
  lists that agree position by position in id and balance, and in currency up to letter
  case, give the same result, so that in particular the two currency checks treat
  currencies that differ only in case as equal. Every snapshot of every result carries
  the currency of an input account with the same id, in upper case.
\<close>

theorem currency_case:
  "(list_all2 sameUpToCase accounts accounts' \<longrightarrow>
      parsePaymentInstruction msgs now accounts instruction =
      parsePaymentInstruction msgs now accounts' instruction) \<and>
   (\<forall>s \<in> set (r_accounts (parsePaymentInstruction msgs now accounts instruction)).
      \<exists>a \<in> set accounts. snap_id s = acc_id a \<and>
         snap_currency s = toUpperCase (acc_currency a))"
proof (cases "parseInstruction instruction")
  case None
  then show ?thesis
    by (simp add: parsePaymentInstruction_def unparseableResponse_def)
next
  case (Some p)
  then have r: "parsePaymentInstruction msgs now accs instruction
             = processParsed msgs now accs p" for accs
    by (simp add: parsePaymentInstruction_def)
  have ne: "p_executeBy p \<noteq> Some []"
    using Some by (rule parseInstruction_executeBy)
  have snaps: "\<forall>s \<in> set (r_accounts (processParsed msgs now accounts p)).
      \<exists>a \<in> set accounts. snap_id s = acc_id a \<and> snap_currency s = toUpperCase (acc_currency a)"
    using ne
    by (cases rule: processParsed_cases [where msgs = msgs and now = now and accounts = accounts])
      (auto simp: mkResponse_def accountsWithOriginalBalances_def transactionAccounts_def
        originalBalance_def dest: snapshot_currency)
  then show ?thesis
    by (simp add: r processParsed_case)
qed

theorem currency_case_witness:
  "list_all2 sameUpToCase
     [\<lparr>acc_id = ''a'', acc_balance = 230, acc_currency = ''usd''\<rparr>,
      \<lparr>acc_id = ''b'', acc_balance = 300, acc_currency = ''Usd''\<rparr>] sampleAccounts \<and>
   parsePaymentInstruction sampleMessages 0
     [\<lparr>acc_id = ''a'', acc_balance = 230, acc_currency = ''usd''\<rparr>,
      \<lparr>acc_id = ''b'', acc_balance = 300, acc_currency = ''Usd''\<rparr>]
     ''DEBIT 30 USD FROM ACCOUNT a FOR CREDIT TO ACCOUNT b'' =
   parsePaymentInstruction sampleMessages 0 sampleAccounts
     ''DEBIT 30 USD FROM ACCOUNT a FOR CREDIT TO ACCOUNT b'' \<and>
   status (parsePaymentInstruction sampleMessages 0
     [\<lparr>acc_id = ''a'', acc_balance = 230, acc_currency = ''usd''\<rparr>,
      \<lparr>acc_id = ''b'', acc_balance = 300, acc_currency = ''Usd''\<rparr>]
     ''DEBIT 30 USD FROM ACCOUNT a FOR CREDIT TO ACCOUNT b'') = successful \<and>
   map snap_currency (r_accounts (parsePaymentInstruction sampleMessages 0
     [\<lparr>acc_id = ''a'', acc_balance = 230, acc_currency = ''usd''\<rparr>,
      \<lparr>acc_id = ''b'', acc_balance = 300, acc_currency = ''Usd''\<rparr>]
     ''DEBIT 30 USD FROM ACCOUNT a FOR CREDIT TO ACCOUNT b'')) = [''USD'', ''USD'']"
proof -
  have rel: "list_all2 sameUpToCase
     [\<lparr>acc_id = ''a'', acc_balance = 230, acc_currency = ''usd''\<rparr>,
      \<lparr>acc_id = ''b'', acc_balance = 300, acc_currency = ''Usd''\<rparr>] sampleAccounts"
    by code_simp
  have st: "status (parsePaymentInstruction sampleMessages 0 sampleAccounts
     ''DEBIT 30 USD FROM ACCOUNT a FOR CREDIT TO ACCOUNT b'') = successful"
    by code_simp
  have cur: "map snap_currency (r_accounts (parsePaymentInstruction sampleMessages 0 sampleAccounts
     ''DEBIT 30 USD FROM ACCOUNT a FOR CREDIT TO ACCOUNT b'')) = [''USD'', ''USD'']"
    by code_simp
  show ?thesis
    using currency_case [where accounts = "[\<lparr>acc_id = ''a'', acc_balance = 230, acc_currency = ''usd''\<rparr>,
      \<lparr>acc_id = ''b'', acc_balance = 300, acc_currency = ''Usd''\<rparr>]"
      and accounts' = sampleAccounts and msgs = sampleMessages and now = 0
      and instruction = "''DEBIT 30 USD FROM ACCOUNT a FOR CREDIT TO ACCOUNT b''"] rel st cur
    by simp
qed

section \<open>The clock\<close>

lemma compareDateWithToday_day:
  "now1 div msPerDay = now2 div msPerDay \<Longrightarrow>
   compareDateWithToday now1 d = compareDateWithToday now2 d"
  by (simp add: compareDateWithToday_def getUTCFullYear_def getUTCMonth_def getUTCDate_def)

lemma processParsed_day:
  assumes "now1 div msPerDay = now2 div msPerDay"
  shows "processParsed msgs now1 accounts p = processParsed msgs now2 accounts p"
proof -
  have eq: "compareDateWithToday now1 = compareDateWithToday now2"
    using assms by (intro ext compareDateWithToday_day)
  show ?thesis
    unfolding processParsed_def eq by (rule refl)
qed

text \<open>
  Claim C6 as stated says the current date is a parameter of the processor and is not read
  from the system clock inside. In the source \<open>compareDateWithToday\<close> calls
  \<open>new Date()\<close>, and neither parameter of \<open>parsePaymentInstruction\<close> carries a date; in
  the model the clock reading is the argument \<open>now\<close>. With the same accounts and the same
  instruction the result changes with the clock alone: pending at the epoch, successful
  in November 2026.
\<close>

theorem clock_counterexample:
  "status (parsePaymentInstruction sampleMessages 0 sampleAccounts
     ''DEBIT 30 USD FROM ACCOUNT a FOR CREDIT TO ACCOUNT b ON 2026-06-15'') = pending \<and>
   status (parsePaymentInstruction sampleMessages 1793577600000 sampleAccounts
     ''DEBIT 30 USD FROM ACCOUNT a FOR CREDIT TO ACCOUNT b ON 2026-06-15'') = successful"
  by code_simp

text \<open>
  Claim C6, amended. The result is a function of the accounts, the instruction and the
  reading of the system clock taken inside the processor, and it depends on the clock
  only through the UTC calendar day: two calls with the same inputs at instants of the
  same UTC day return the same result. That the accounts list is not mutated holds by
  construction of the model: the source only reads the fields of the accounts and builds
  new snapshot objects.
\<close>

theorem clock_day_only:
  "now1 div msPerDay = now2 div msPerDay \<Longrightarrow>
   parsePaymentInstruction msgs now1 accounts instruction =
   parsePaymentInstruction msgs now2 accounts instruction"
proof -
  assume "now1 div msPerDay = now2 div msPerDay"
  then have "processParsed msgs now1 accounts p = processParsed msgs now2 accounts p" for p
    by (rule processParsed_day)
  then show ?thesis
    by (cases "parseInstruction instruction") (simp_all add: parsePaymentInstruction_def)
qed

theorem clock_day_only_witness:
  "(1793577600000::int) div msPerDay = 1793660000000 div msPerDay \<and>
   parsePaymentInstruction sampleMessages 1793577600000 sampleAccounts
     ''DEBIT 30 USD FROM ACCOUNT a FOR CREDIT TO ACCOUNT b ON 2026-11-02'' =
   parsePaymentInstruction sampleMessages 1793660000000 sampleAccounts
     ''DEBIT 30 USD FROM ACCOUNT a FOR CREDIT TO ACCOUNT b ON 2026-11-02'' \<and>
   status (parsePaymentInstruction sampleMessages 1793577600000 sampleAccounts
     ''DEBIT 30 USD FROM ACCOUNT a FOR CREDIT TO ACCOUNT b ON 2026-11-02'') = successful"
proof -
  have day: "(1793577600000::int) div msPerDay = 1793660000000 div msPerDay"
    by (simp add: msPerDay_def)
  have st: "status (parsePaymentInstruction sampleMessages 1793577600000 sampleAccounts
     ''DEBIT 30 USD FROM ACCOUNT a FOR CREDIT TO ACCOUNT b ON 2026-11-02'') = successful"
    by code_simp
  show ?thesis
    using clock_day_only [OF day, where msgs = sampleMessages and accounts = sampleAccounts
      and instruction = "''DEBIT 30 USD FROM ACCOUNT a FOR CREDIT TO ACCOUNT b ON 2026-11-02''"]
      day st
    by simp
qed

section \<open>What the parser accepts\<close>

text \<open>
  Claim C5 as stated says that every well-formed instruction, with any keyword casing
  and arbitrary extra white space, parses to the expected fields, and that every malformed
  string yields \<open>null\<close>. The parser searches the keywords as substrings: a credit account
  \<open>jon\<close> is cut at its \<open>on\<close>. It splits the amount from the currency at space
  characters only: with a tab between them the instruction is rejected. And a text that
  is no instruction, \<open>DEBITED 30 USD ...\<close>, is parsed, with amount \<open>ED\<close>.
\<close>

theorem parser_counterexample:
  "parseInstruction ''DEBIT 30 USD FROM ACCOUNT a FOR CREDIT TO ACCOUNT jon'' =
     Some \<lparr>p_type = DEBIT, p_amount = ''30'', p_currency = ''USD'', p_debitAccount = ''a'',
           p_creditAccount = ''j'', p_executeBy = None\<rparr> \<and>
   parseInstruction (''DEBIT 30'' @ [CHR 0x09] @ ''USD FROM ACCOUNT a FOR CREDIT TO ACCOUNT b'')
     = None \<and>
   parseInstruction ''DEBITED 30 USD FROM ACCOUNT a FOR CREDIT TO ACCOUNT b'' =
     Some \<lparr>p_type = DEBIT, p_amount = ''ED'', p_currency = ''30'', p_debitAccount = ''a'',
           p_creditAccount = ''b'', p_executeBy = None\<rparr>"
  by code_simp

text \<open>
  Claim C5, amended. An instruction written in the debit or the credit format, with any
  casing of the keywords, any white space before and after it, a non-empty run of white
  space between its words and of space characters between amount and currency, parses to
  its type, amount, currency in upper case, debit account, credit account and date (none
  when the \<open>ON\<close> clause is missing or has no date), with the case of the tokens kept,
  provided the amount and the currency do not contain the keyword that follows them
  (\<open>FROM\<close>, or \<open>TO\<close> in a credit), the first account does not contain \<open>FOR\<close> and the
  second does not contain \<open>ON\<close>, in any casing. A string that after trimming begins
  with neither \<open>DEBIT\<close> nor \<open>CREDIT\<close>, or that lacks one of the keywords \<open>DEBIT\<close>,
  \<open>CREDIT\<close>, \<open>FROM\<close>, \<open>TO\<close>, \<open>FOR\<close>, \<open>ACCOUNT\<close>, yields \<open>null\<close>.
\<close>

theorem parser_contract:
  "(wordingOf ''DEBIT'' ''FROM'' ''CREDIT'' ''TO'' w \<and>
    token amount \<and> token currency \<and> token debitId \<and> token creditId \<and> onClause oc \<and>
    lacks amount ''FROM'' \<and> lacks currency ''FROM'' \<and> lacks debitId ''FOR'' \<and>
    lacks creditId ''ON'' \<longrightarrow>
    parseInstruction (instructionText w amount currency debitId creditId oc) =
      Some \<lparr>p_type = DEBIT, p_amount = amount, p_currency = toUpperCase currency,
            p_debitAccount = debitId, p_creditAccount = creditId,
            p_executeBy = onDate oc\<rparr>) \<and>
   (wordingOf ''CREDIT'' ''TO'' ''DEBIT'' ''FROM'' w \<and>
    token amount \<and> token currency \<and> token creditId \<and> token debitId \<and> onClause oc \<and>
    lacks amount ''TO'' \<and> lacks currency ''TO'' \<and> lacks creditId ''FOR'' \<and>
    lacks debitId ''ON'' \<longrightarrow>
    parseInstruction (instructionText w amount currency creditId debitId oc) =
      Some \<lparr>p_type = CREDIT, p_amount = amount, p_currency = toUpperCase currency,
            p_debitAccount = debitId, p_creditAccount = creditId,
            p_executeBy = onDate oc\<rparr>) \<and>
   ((findKeywordIndex (trim s) ''DEBIT'' 0 \<noteq> Some 0 \<and>
     findKeywordIndex (trim s) ''CREDIT'' 0 \<noteq> Some 0) \<or>
    lacks s ''DEBIT'' \<or> lacks s ''CREDIT'' \<or> lacks s ''FROM'' \<or> lacks s ''TO'' \<or>
    lacks s ''FOR'' \<or> lacks s ''ACCOUNT'' \<longrightarrow>
    parseInstruction s = None)"
  using parse_debit_text [of w amount currency debitId creditId oc]
    parse_credit_text [of w amount currency creditId debitId oc]
    parse_incomplete [of s]
  by blast

theorem parser_contract_witness:
  "instructionText sampleWording ''30'' ''usd'' ''acc-001'' ''b@x''
       (Some ('' '', ''On'', ''  '', ''2026-12-31'')) =
     '' Debit'' @ [CHR 0x09] @
     ''30  usd from ACCOUNT  acc-001 For CREDIT to Account b@x On  2026-12-31'' @ [CHR 0x0A] \<and>
   wordingOf ''DEBIT'' ''FROM'' ''CREDIT'' ''TO'' sampleWording \<and>
   token ''30'' \<and> token ''usd'' \<and> token ''acc-001'' \<and> token ''b@x'' \<and>
   onClause (Some ('' '', ''On'', ''  '', ''2026-12-31'')) \<and>
   lacks ''30'' ''FROM'' \<and> lacks ''usd'' ''FROM'' \<and> lacks ''acc-001'' ''FOR'' \<and>
   lacks ''b@x'' ''ON'' \<and>
   parseInstruction (instructionText sampleWording ''30'' ''usd'' ''acc-001'' ''b@x''
       (Some ('' '', ''On'', ''  '', ''2026-12-31''))) =
     Some \<lparr>p_type = DEBIT, p_amount = ''30'', p_currency = ''USD'',
           p_debitAccount = ''acc-001'', p_creditAccount = ''b@x'',
           p_executeBy = Some ''2026-12-31''\<rparr> \<and>
   wordingOf ''CREDIT'' ''TO'' ''DEBIT'' ''FROM'' sampleCreditWording \<and>
   onClause None \<and>
   lacks ''30'' ''TO'' \<and> lacks ''usd'' ''TO'' \<and> lacks ''b@x'' ''FOR'' \<and>
   lacks ''acc-001'' ''ON'' \<and>
   parseInstruction (instructionText sampleCreditWording ''30'' ''usd'' ''b@x'' ''acc-001'' None) =
     Some \<lparr>p_type = CREDIT, p_amount = ''30'', p_currency = ''USD'',
           p_debitAccount = ''acc-001'', p_creditAccount = ''b@x'',
           p_executeBy = None\<rparr> \<and>
   lacks ''DEBIT 30 USD FROM a FOR CREDIT TO b'' ''ACCOUNT'' \<and>
   parseInstruction ''DEBIT 30 USD FROM a FOR CREDIT TO b'' = None"
proof -
  have x: "instructionText sampleWording ''30'' ''usd'' ''acc-001'' ''b@x''
       (Some ('' '', ''On'', ''  '', ''2026-12-31'')) =
     '' Debit'' @ [CHR 0x09] @
     ''30  usd from ACCOUNT  acc-001 For CREDIT to Account b@x On  2026-12-31'' @ [CHR 0x0A]"
    by code_simp
  have d: "wordingOf ''DEBIT'' ''FROM'' ''CREDIT'' ''TO'' sampleWording"
    by code_simp
  have c: "wordingOf ''CREDIT'' ''TO'' ''DEBIT'' ''FROM'' sampleCreditWording"
    by code_simp
  have t: "token ''30''" "token ''usd''" "token ''acc-001''" "token ''b@x''"
    by code_simp+
  have o: "onClause (Some ('' '', ''On'', ''  '', ''2026-12-31''))" "onClause None"
    by code_simp+
  have l: "lacks ''30'' ''FROM''" "lacks ''usd'' ''FROM''" "lacks ''acc-001'' ''FOR''"
      "lacks ''b@x'' ''ON''" "lacks ''30'' ''TO''" "lacks ''usd'' ''TO''"
      "lacks ''b@x'' ''FOR''" "lacks ''acc-001'' ''ON''"
    by code_simp+
  have n: "lacks ''DEBIT 30 USD FROM a FOR CREDIT TO b'' ''ACCOUNT''"
    by code_simp
  have u: "toUpperCase ''usd'' = ''USD''"
    by code_simp
  have od: "onDate (Some ('' '', ''On'', ''  '', ''2026-12-31'')) = Some ''2026-12-31''"
      "onDate None = None"
    by (simp_all add: onDate_def)
  show ?thesis
    using parser_contract [of sampleWording "''30''" "''usd''" "''acc-001''" "''b@x''"
        "Some ('' '', ''On'', ''  '', ''2026-12-31'')"
        "''DEBIT 30 USD FROM a FOR CREDIT TO b''"]
      parser_contract [of sampleCreditWording "''30''" "''usd''" "''acc-001''" "''b@x''" None
        "''DEBIT 30 USD FROM a FOR CREDIT TO b''"]
      x d c t o l n u od
    by simp
qed

section \<open>An \<open>ON\<close> clause without a date\<close>

text \<open>
  Claim C10 as stated says that an instruction with the keyword \<open>ON\<close> and nothing but
  white space after it is parsed with no execute-by date and is not rejected with DT01.
  The parser takes the first \<open>on\<close> after the second \<open>ACCOUNT\<close> keyword for the keyword,
  in the middle of a word too: in \<open>... TO ACCOUNT jon ON\<close> it cuts the account id to
  \<open>j\<close> and takes the keyword \<open>ON\<close> for the date, and the processor fails with DT01.
\<close>

theorem empty_on_clause_counterexample:
  "parseInstruction ''DEBIT 30 USD FROM ACCOUNT a FOR CREDIT TO ACCOUNT jon ON '' =
     Some \<lparr>p_type = DEBIT, p_amount = ''30'', p_currency = ''USD'', p_debitAccount = ''a'',
           p_creditAccount = ''j'', p_executeBy = Some ''ON''\<rparr> \<and>
   status (parsePaymentInstruction sampleMessages 0
     [\<lparr>acc_id = ''a'', acc_balance = 230, acc_currency = ''USD''\<rparr>,
      \<lparr>acc_id = ''jon'', acc_balance = 300, acc_currency = ''USD''\<rparr>]
     ''DEBIT 30 USD FROM ACCOUNT a FOR CREDIT TO ACCOUNT jon ON '') = failed \<and>
   status_code (parsePaymentInstruction sampleMessages 0
     [\<lparr>acc_id = ''a'', acc_balance = 230, acc_currency = ''USD''\<rparr>,
      \<lparr>acc_id = ''jon'', acc_balance = 300, acc_currency = ''USD''\<rparr>]
     ''DEBIT 30 USD FROM ACCOUNT a FOR CREDIT TO ACCOUNT jon ON '') = DT01"
  by code_simp

text \<open>
  Claim C10, amended. Take an instruction that parses with no execute-by date, and write
  after it a gap, the keyword \<open>ON\<close> in any casing, and nothing but white space. If the
  instruction does not itself end in \<open>on\<close> in any casing, which is to say that the parser
  finds no \<open>on\<close> after the second \<open>ACCOUNT\<close> keyword, the parser returns the same fields
  as for the instruction alone, with no execute-by date, so the processor returns the
  same result for both: it does not fail with DT01, and when all eleven checks hold it
  is \<open>successful\<close> with AP00, whatever the clock. If the instruction does end in \<open>on\<close>,
  as with a last account id \<open>jon\<close>, the parser returns the same fields with the keyword
  written after it as the execute-by date, and the processor fails with DT01 as soon as
  the amount and the two account ids are well formed.
\<close>

theorem empty_on_clause:
  assumes "parseInstruction s = Some p" and "p_executeBy p = None"
    and "gap g" and "spelled k ''ON''" and "whitespace w"
  shows "(\<not> endsWith (trim s) ''ON'' \<longrightarrow>
            parseInstruction (s @ g @ k @ w) = Some p \<and>
            parsePaymentInstruction msgs now accounts (s @ g @ k @ w) =
              parsePaymentInstruction msgs now accounts s \<and>
            status_code (parsePaymentInstruction msgs now accounts (s @ g @ k @ w)) \<noteq> DT01 \<and>
            (first_failure accounts p = None \<longrightarrow>
               status (parsePaymentInstruction msgs now accounts (s @ g @ k @ w)) = successful \<and>
               status_code (parsePaymentInstruction msgs now accounts (s @ g @ k @ w)) = AP00)) \<and>
         (endsWith (trim s) ''ON'' \<longrightarrow>
            parseInstruction (s @ g @ k @ w) = Some (p\<lparr>p_executeBy := Some k\<rparr>) \<and>
            (isPositiveInteger (p_amount p) \<and> isValidAccountId (p_debitAccount p) \<and>
             isValidAccountId (p_creditAccount p) \<longrightarrow>
               status_code (parsePaymentInstruction msgs now accounts (s @ g @ k @ w)) = DT01))"
proof (cases "endsWith (trim s) ''ON''")
  case False
  have same: "parseInstruction (s @ g @ k @ w) = Some p"
    using parseInstruction_on_appended [OF assms] False assms(2) by simp
  have r: "parsePaymentInstruction msgs now accounts (s @ g @ k @ w)
             = processParsed msgs now accounts p"
    "parsePaymentInstruction msgs now accounts s = processParsed msgs now accounts p"
    using same assms(1) by (simp_all add: parsePaymentInstruction_def)
  have ne: "p_executeBy p \<noteq> Some []"
    using assms(2) by simp
  from ne have "status_code (processParsed msgs now accounts p) \<noteq> DT01 \<and>
     (first_failure accounts p = None \<longrightarrow>
        status (processParsed msgs now accounts p) = successful \<and>
        status_code (processParsed msgs now accounts p) = AP00)"
    by (cases rule: processParsed_cases [where msgs = msgs and now = now and accounts = accounts])
      (use assms(2) in \<open>auto simp: mkResponse_def chain_defs progress_defs split: option.splits\<close>)
  with False same r show ?thesis by simp
next
  case True
  have date: "parseInstruction (s @ g @ k @ w) = Some (p\<lparr>p_executeBy := Some k\<rparr>)"
    using parseInstruction_on_appended [OF assms] True by simp
  have "length k = 2"
    using spelled_length [OF assms(4)] by simp
  then have bad: "k \<noteq> []" "\<not> isValidDate k"
    by (auto simp: isValidDate_def)
  have "status_code (processParsed msgs now accounts (p\<lparr>p_executeBy := Some k\<rparr>)) = DT01"
    if "isPositiveInteger (p_amount p)" "isValidAccountId (p_debitAccount p)"
      "isValidAccountId (p_creditAccount p)"
    using that bad
    by (simp add: stage_DT01 [where d = k] mkResponse_def)
  with True date show ?thesis
    by (simp add: parsePaymentInstruction_def)
qed

theorem empty_on_clause_witness:
  "parseInstruction ''DEBIT 30 USD FROM ACCOUNT a FOR CREDIT TO ACCOUNT b'' =
     Some \<lparr>p_type = DEBIT, p_amount = ''30'', p_currency = ''USD'', p_debitAccount = ''a'',
           p_creditAccount = ''b'', p_executeBy = None\<rparr> \<and>
   \<not> endsWith (trim ''DEBIT 30 USD FROM ACCOUNT a FOR CREDIT TO ACCOUNT b'') ''ON'' \<and>
   gap '' '' \<and> spelled ''On'' ''ON'' \<and> whitespace ''  '' \<and>
   first_failure sampleAccounts
     \<lparr>p_type = DEBIT, p_amount = ''30'', p_currency = ''USD'', p_debitAccount = ''a'',
      p_creditAccount = ''b'', p_executeBy = None\<rparr> = None \<and>
   parseInstruction ''DEBIT 30 USD FROM ACCOUNT a FOR CREDIT TO ACCOUNT b On  '' =
     Some \<lparr>p_type = DEBIT, p_amount = ''30'', p_currency = ''USD'', p_debitAccount = ''a'',
           p_creditAccount = ''b'', p_executeBy = None\<rparr> \<and>
   status (parsePaymentInstruction sampleMessages 0 sampleAccounts
     ''DEBIT 30 USD FROM ACCOUNT a FOR CREDIT TO ACCOUNT b On  '') = successful \<and>
   status_code (parsePaymentInstruction sampleMessages 0 sampleAccounts
     ''DEBIT 30 USD FROM ACCOUNT a FOR CREDIT TO ACCOUNT b On  '') = AP00 \<and>
   parseInstruction ''CREDIT 30 USD TO ACCOUNT a FOR DEBIT FROM ACCOUNT jon'' =
     Some \<lparr>p_type = CREDIT, p_amount = ''30'', p_currency = ''USD'', p_debitAccount = ''j'',
           p_creditAccount = ''a'', p_executeBy = None\<rparr> \<and>
   endsWith (trim ''CREDIT 30 USD TO ACCOUNT a FOR DEBIT FROM ACCOUNT jon'') ''ON'' \<and>
   isPositiveInteger ''30'' \<and> isValidAccountId ''j'' \<and> isValidAccountId ''a'' \<and>
   parseInstruction ''CREDIT 30 USD TO ACCOUNT a FOR DEBIT FROM ACCOUNT jon On  '' =
     Some \<lparr>p_type = CREDIT, p_amount = ''30'', p_currency = ''USD'', p_debitAccount = ''j'',
           p_creditAccount = ''a'', p_executeBy = Some ''On''\<rparr> \<and>
   status_code (parsePaymentInstruction sampleMessages 0 sampleAccounts
     ''CREDIT 30 USD TO ACCOUNT a FOR DEBIT FROM ACCOUNT jon On  '') = DT01"
proof -
  have p: "parseInstruction ''DEBIT 30 USD FROM ACCOUNT a FOR CREDIT TO ACCOUNT b'' =
     Some \<lparr>p_type = DEBIT, p_amount = ''30'', p_currency = ''USD'', p_debitAccount = ''a'',
           p_creditAccount = ''b'', p_executeBy = None\<rparr>"
    by code_simp
  have e: "\<not> endsWith (trim ''DEBIT 30 USD FROM ACCOUNT a FOR CREDIT TO ACCOUNT b'') ''ON''"
    by code_simp
  have g: "gap '' ''" and k: "spelled ''On'' ''ON''" and w: "whitespace ''  ''"
    by code_simp+
  have c: "first_failure sampleAccounts
     \<lparr>p_type = DEBIT, p_amount = ''30'', p_currency = ''USD'', p_debitAccount = ''a'',
      p_creditAccount = ''b'', p_executeBy = None\<rparr> = None"
    by code_simp
  have p': "parseInstruction ''CREDIT 30 USD TO ACCOUNT a FOR DEBIT FROM ACCOUNT jon'' =
     Some \<lparr>p_type = CREDIT, p_amount = ''30'', p_currency = ''USD'', p_debitAccount = ''j'',
           p_creditAccount = ''a'', p_executeBy = None\<rparr>"
    by code_simp
  have e': "endsWith (trim ''CREDIT 30 USD TO ACCOUNT a FOR DEBIT FROM ACCOUNT jon'') ''ON''"
    by code_simp
  have v: "isPositiveInteger ''30''" "isValidAccountId ''j''" "isValidAccountId ''a''"
    by code_simp+
  show ?thesis
    using empty_on_clause [OF p _ g k w, where msgs = sampleMessages and now = 0
        and accounts = sampleAccounts]
      empty_on_clause [OF p' _ g k w, where msgs = sampleMessages and now = 0
        and accounts = sampleAccounts]
      p e g k w c p' e' v
    by auto
qed

end
